theory Spec2Isabelle
  imports Complex_Main
begin

text \<open>
  A shallow embedding of go-tax: the word, sentence and numeral dispenser (package
  \<open>dispenser\<close>), the currency type of package \<open>statement\<close>, and of package \<open>pdf\<close> the
  text tracker of the content-stream interpreter and the statement extractor
  \<open>processText\<close>. Mutation of a receiver becomes a returned value; a panic becomes an
  \<open>error\<close>; every loop is a recursive function of its own.
\<close>

section \<open>Go values and runtime failures\<close>

text \<open>
  A Go run-time panic is a value of the model. The dispenser only ever fails by indexing
  a slice or a string out of range; the interpreter's operand stack can also be sliced
  below its bottom.
\<close>

datatype error = IndexOutOfRange | SliceBoundsOutOfRange

text \<open>
  \<open>xs[k]\<close> for a Go \<open>int\<close> index: a negative index or one past the end panics.
\<close>

definition index :: "'a list \<Rightarrow> int \<Rightarrow> error + 'a" where
  "index xs k = (if 0 \<le> k \<and> k < int (length xs) then Inr (xs ! nat k) else Inl IndexOutOfRange)"

text \<open>\<open>s[len(s)-1]\<close>: the last byte of a string; the empty string panics (index -1).\<close>

definition lastByte :: "string \<Rightarrow> error + char" where
  "lastByte s = (if s = [] then Inl IndexOutOfRange else Inr (last s))"

text \<open>
  The test \<open>d.str[k][len(d.str[k])-1] != ' '\<close> that the dispenser writes in seven places:
  the fragment at \<open>k\<close> does not end in a space.
\<close>

definition noTrailingSpace :: "string list \<Rightarrow> int \<Rightarrow> error + bool" where
  "noTrailingSpace xs k =
     (case index xs k of
        Inl e \<Rightarrow> Inl e
      | Inr w \<Rightarrow> (case lastByte w of Inl e \<Rightarrow> Inl e | Inr c \<Rightarrow> Inr (c \<noteq> CHR '' '')))"

subsection \<open>The string functions of the Go library that the code calls\<close>

text \<open>
  Strings are byte lists, in Go UTF-8 encoded. \<open>strings.TrimSpace\<close> removes leading and
  trailing code points with the Unicode property White_Space; \<open>whiteSpace\<close> lists their
  UTF-8 encodings (U+0009 to U+000D, U+0020, U+0085, U+00A0, U+1680, U+2000 to U+200A,
  U+2028, U+2029, U+202F, U+205F, U+3000). A byte that is not part of such an encoding
  ends the trimming, as an invalid or a non-space code point does in Go.
\<close>

definition whiteSpace :: "string list" where
  "whiteSpace =
     [[CHR 0x09], [CHR 0x0A], [CHR 0x0B], [CHR 0x0C], [CHR 0x0D], [CHR 0x20],
      [CHR 0xC2, CHR 0x85], [CHR 0xC2, CHR 0xA0], [CHR 0xE1, CHR 0x9A, CHR 0x80],
      [CHR 0xE2, CHR 0x80, CHR 0x80], [CHR 0xE2, CHR 0x80, CHR 0x81],
      [CHR 0xE2, CHR 0x80, CHR 0x82], [CHR 0xE2, CHR 0x80, CHR 0x83],
      [CHR 0xE2, CHR 0x80, CHR 0x84], [CHR 0xE2, CHR 0x80, CHR 0x85],
      [CHR 0xE2, CHR 0x80, CHR 0x86], [CHR 0xE2, CHR 0x80, CHR 0x87],
      [CHR 0xE2, CHR 0x80, CHR 0x88], [CHR 0xE2, CHR 0x80, CHR 0x89],
      [CHR 0xE2, CHR 0x80, CHR 0x8A], [CHR 0xE2, CHR 0x80, CHR 0xA8],
      [CHR 0xE2, CHR 0x80, CHR 0xA9], [CHR 0xE2, CHR 0x80, CHR 0xAF],
      [CHR 0xE2, CHR 0x81, CHR 0x9F], [CHR 0xE3, CHR 0x80, CHR 0x80]]"

text \<open>Remove from the front of \<open>s\<close>, as long as there is one, a prefix that is listed in \<open>ps\<close>.\<close>

function trimPrefixes :: "string list \<Rightarrow> string \<Rightarrow> string" where
  "trimPrefixes ps s =
     (case find (\<lambda>p. p \<noteq> [] \<and> take (length p) s = p) ps of
        None \<Rightarrow> s
      | Some p \<Rightarrow> trimPrefixes ps (drop (length p) s))"
  by pat_completeness auto
termination
proof (relation "measure (\<lambda>(ps, s). length s)")
  show "wf (measure (\<lambda>(ps, s). length s))" by simp
next
  fix ps :: "string list" and s p :: string
  assume "find (\<lambda>p. p \<noteq> [] \<and> take (length p) s = p) ps = Some p"
  then have "p \<noteq> []" and "take (length p) s = p"
    by (auto simp: find_Some_iff)
  then have "s \<noteq> []" and "0 < length p" by auto
  then show "((ps, drop (length p) s), (ps, s)) \<in> measure (\<lambda>(ps, s). length s)"
    by simp
qed

declare trimPrefixes.simps [simp del]

definition TrimSpace :: "string \<Rightarrow> string" where
  "TrimSpace s = rev (trimPrefixes (map rev whiteSpace) (rev (trimPrefixes whiteSpace s)))"

text \<open>
  The Go type \<open>float64\<close> is idealised as the rationals: \<open>strconv.ParseFloat\<close>, which is
  not code of this repository, is a parameter \<open>P\<close> of every function that reaches it, and
  arithmetic on its results is exact.
\<close>

type_synonym parser = "string \<Rightarrow> rat option"

section \<open>The dispenser\<close>

record Dispenser =
  i :: int
  continueNextSentence :: bool
  str :: "string list"

definition NewDispenser :: "string list \<Rightarrow> Dispenser" where
  "NewDispenser xs = \<lparr>i = 0, continueNextSentence = False, str = xs\<rparr>"

definition getNumeral :: "parser \<Rightarrow> string \<Rightarrow> rat option" where
  "getNumeral P s =
     P (dropWhile (\<lambda>c. c = CHR ''$'') (TrimSpace (filter (\<lambda>c. c \<noteq> CHR '','') s)))"

definition NextWord :: "parser \<Rightarrow> Dispenser \<Rightarrow> error + (Dispenser \<times> bool)" where
  "NextWord P d =
     (if i d \<ge> int (length (str d)) then Inr (d, False)
      else if \<not> continueNextSentence d then Inr (d, False)
      else (case index (str d) (i d) of
              Inl e \<Rightarrow> Inl e
            | Inr w \<Rightarrow>
                (case getNumeral P w of
                   Some v \<Rightarrow> Inr (d, False)
                 | None \<Rightarrow>
                     (case noTrailingSpace (str d) (i d) of
                        Inl e \<Rightarrow> Inl e
                      | Inr b \<Rightarrow>
                          Inr (d\<lparr>continueNextSentence :=
                                     (if b \<or> i d + 1 = int (length (str d)) then False
                                      else continueNextSentence d),
                                   i := i d + 1\<rparr>, True)))))"

definition Word :: "Dispenser \<Rightarrow> error + string" where
  "Word d =
     (if i d > int (length (str d)) \<or> i d = 0 then Inr []
      else (case index (str d) (i d - 1) of Inl e \<Rightarrow> Inl e | Inr w \<Rightarrow> Inr (TrimSpace w)))"

definition LastWord :: "Dispenser \<Rightarrow> error + string" where
  "LastWord d =
     (if i d - 2 < 0 \<or> i d - 2 \<ge> int (length (str d)) then Inr []
      else index (str d) (i d - 2))"

text \<open>The guard of \<open>LastNWords\<close> reads \<open>d.i-n-1\<close>, the indexing reads \<open>d.i-2\<close>.\<close>

definition LastNWords :: "Dispenser \<Rightarrow> int \<Rightarrow> error + string" where
  "LastNWords d n =
     (if i d - n - 1 < 0 \<or> i d - n - 1 \<ge> int (length (str d)) then Inr []
      else index (str d) (i d - 2))"

text \<open>
  The forward loop of \<open>NextSentence\<close>: from \<open>k\<close>, stop one past the first fragment
  without a trailing space, or at the end of the fragments.
\<close>

function skipSentence :: "string list \<Rightarrow> int \<Rightarrow> error + int" where
  "skipSentence xs k =
     (if k < int (length xs) then
        (case noTrailingSpace xs k of
           Inl e \<Rightarrow> Inl e
         | Inr b \<Rightarrow> if b then Inr (k + 1) else skipSentence xs (k + 1))
      else Inr k)"
  by pat_completeness auto
termination
  by (relation "measure (\<lambda>(xs, k). nat (int (length xs) - k))") auto

declare skipSentence.simps [simp del]

definition NextSentence :: "Dispenser \<Rightarrow> error + (Dispenser \<times> bool)" where
  "NextSentence d =
     (if i d \<ge> int (length (str d)) then Inr (d, False)
      else if \<not> continueNextSentence d then Inr (d\<lparr>continueNextSentence := True\<rparr>, True)
      else (case skipSentence (str d) (i d) of
              Inl e \<Rightarrow> Inl e
            | Inr k \<Rightarrow>
                if k + 1 = int (length (str d)) then Inr (d\<lparr>i := k + 1\<rparr>, False)
                else if k \<ge> int (length (str d)) then Inr (d\<lparr>i := k\<rparr>, False)
                else Inr (d\<lparr>i := k\<rparr>, True)))"

text \<open>
  The backward loop of \<open>StartOfSentence\<close>: from \<open>k\<close> down to 1, stop one past the first
  fragment without a trailing space; reaching 0 ends the loop there.
\<close>

function backToBoundary :: "string list \<Rightarrow> int \<Rightarrow> error + int" where
  "backToBoundary xs k =
     (if k > 0 then
        (case noTrailingSpace xs k of
           Inl e \<Rightarrow> Inl e
         | Inr b \<Rightarrow> if b then Inr (k + 1) else backToBoundary xs (k - 1))
      else Inr k)"
  by pat_completeness auto
termination
  by (relation "measure (\<lambda>(xs, k). nat k)") auto

declare backToBoundary.simps [simp del]

text \<open>
  The first condition of \<open>StartOfSentence\<close>, with Go's left-to-right \<open>&&\<close>: an index
  expression is evaluated only when everything before it holds.
\<close>

definition singleWordSentence :: "Dispenser \<Rightarrow> error + bool" where
  "singleWordSentence d =
     (if i d > 0 \<and> i d < int (length (str d)) then
        (case noTrailingSpace (str d) (i d) of
           Inl e \<Rightarrow> Inl e
         | Inr b \<Rightarrow> if b then noTrailingSpace (str d) (i d - 1) else Inr False)
      else Inr False)"

definition StartOfSentence :: "Dispenser \<Rightarrow> error + Dispenser" where
  "StartOfSentence d =
     (case singleWordSentence d of
        Inl e \<Rightarrow> Inl e
      | Inr single \<Rightarrow>
          if single then
            (if \<not> continueNextSentence d
             then Inr (d\<lparr>i := i d - 1, continueNextSentence := True\<rparr>)
             else Inr d)
          else if i d = 0 then Inr (d\<lparr>continueNextSentence := True\<rparr>)
          else if length (str d) = 1 then Inr (d\<lparr>i := 0\<rparr>)
          else
            (let k1 = (if i d = int (length (str d)) \<or> \<not> continueNextSentence d
                       then i d - 2 else i d);
                 k2 = (if k1 < 0 then 0 else k1)
             in case backToBoundary (str d) k2 of
                  Inl e \<Rightarrow> Inl e
                | Inr k \<Rightarrow> Inr (d\<lparr>i := k, continueNextSentence := True\<rparr>)))"

definition LastSentence :: "Dispenser \<Rightarrow> error + Dispenser" where
  "LastSentence d =
     (case StartOfSentence d of
        Inl e \<Rightarrow> Inl e
      | Inr d1 \<Rightarrow>
          (case noTrailingSpace (str d1) (i d1) of
             Inl e \<Rightarrow> Inl e
           | Inr b \<Rightarrow>
               if b then Inr (d1\<lparr>i := i d1 - 1\<rparr>)
               else if i d1 - 2 \<le> 0 then Inr (d1\<lparr>i := 1\<rparr>)
               else StartOfSentence (d1\<lparr>i := i d1 - 2\<rparr>)))"

text \<open>
  The loop of \<open>DumpSentence\<close>: append fragments from \<open>k\<close> up to and including the first
  one without a trailing space. The result is the cursor after the loop and the text.
\<close>

function dumpLoop :: "string list \<Rightarrow> int \<Rightarrow> string \<Rightarrow> error + (int \<times> string)" where
  "dumpLoop xs k sentence =
     (if k < int (length xs) then
        (case index xs k of
           Inl e \<Rightarrow> Inl e
         | Inr w \<Rightarrow>
             (case noTrailingSpace xs k of
                Inl e \<Rightarrow> Inl e
              | Inr b \<Rightarrow> if b then Inr (k + 1, sentence @ w)
                         else dumpLoop xs (k + 1) (sentence @ w)))
      else Inr (k, sentence))"
  by pat_completeness auto
termination
  by (relation "measure (\<lambda>(xs, k, s). nat (int (length xs) - k))") auto

declare dumpLoop.simps [simp del]

definition DumpSentence :: "Dispenser \<Rightarrow> error + (Dispenser \<times> string)" where
  "DumpSentence d =
     (if \<not> continueNextSentence d then Inr (d, [])
      else (case dumpLoop (str d) (i d) [] of
              Inl e \<Rightarrow> Inl e
            | Inr (k, sentence) \<Rightarrow> Inr (d\<lparr>i := k, continueNextSentence := False\<rparr>, sentence)))"

text \<open>
  The loop of \<open>DumpNSentences\<close> runs at most \<open>n - 1\<close> times; \<open>m\<close> counts the rounds left.
  The dispenser is mutated by every round and restored only after the loop.
\<close>

fun dumpMore :: "nat \<Rightarrow> Dispenser \<Rightarrow> string list \<Rightarrow> error + (Dispenser \<times> string list)" where
  "dumpMore 0 d sentences = Inr (d, sentences)"
| "dumpMore (Suc m) d sentences =
     (case NextSentence d of
        Inl e \<Rightarrow> Inl e
      | Inr (d1, ok) \<Rightarrow>
          if \<not> ok then Inr (d1, sentences)
          else (case DumpSentence d1 of
                  Inl e \<Rightarrow> Inl e
                | Inr (d2, s) \<Rightarrow> dumpMore m d2 (sentences @ [s])))"

definition DumpNSentences :: "Dispenser \<Rightarrow> int \<Rightarrow> error + (Dispenser \<times> string list)" where
  "DumpNSentences d n =
     (let start = i d; continueState = continueNextSentence d
      in case DumpSentence d of
           Inl e \<Rightarrow> Inl e
         | Inr (d1, s) \<Rightarrow>
             (case dumpMore (nat (n - 1)) d1 [s] of
                Inl e \<Rightarrow> Inl e
              | Inr (d2, sentences) \<Rightarrow>
                  Inr (d2\<lparr>i := start, continueNextSentence := continueState\<rparr>, sentences)))"

definition AtEndOfSentence :: "Dispenser \<Rightarrow> bool" where
  "AtEndOfSentence d =
     (if \<not> continueNextSentence d then True
      else if i d \<ge> int (length (str d)) then True
      else False)"

definition NextNumeral :: "parser \<Rightarrow> Dispenser \<Rightarrow> error + (Dispenser \<times> bool)" where
  "NextNumeral P d =
     (if i d \<ge> int (length (str d)) then Inr (d, False)
      else if \<not> continueNextSentence d then Inr (d, False)
      else (case index (str d) (i d) of
              Inl e \<Rightarrow> Inl e
            | Inr w \<Rightarrow>
                (case getNumeral P w of
                   None \<Rightarrow> Inr (d, False)
                 | Some v \<Rightarrow>
                     (case noTrailingSpace (str d) (i d) of
                        Inl e \<Rightarrow> Inl e
                      | Inr b \<Rightarrow>
                          Inr (d\<lparr>continueNextSentence :=
                                     (if b then False else continueNextSentence d),
                                   i := i d + 1\<rparr>, True)))))"

definition Position :: "Dispenser \<Rightarrow> int" where
  "Position d = i d"

definition Numeral :: "parser \<Rightarrow> Dispenser \<Rightarrow> error + rat" where
  "Numeral P d =
     (if i d > int (length (str d)) \<or> i d = 0 then Inr 0
      else (case index (str d) (i d - 1) of
              Inl e \<Rightarrow> Inl e
            | Inr w \<Rightarrow> (case getNumeral P w of Some num \<Rightarrow> Inr num | None \<Rightarrow> Inr 0)))"

text \<open>
  The loop of \<open>JumpNextNumeral\<close> calls \<open>NextWord\<close> and ignores what it returns. It
  terminates because, where \<open>NextNumeral\<close> has just failed inside an open sentence,
  \<open>NextWord\<close> either panics or moves the cursor forward.
\<close>

lemma NextNumeral_False: "NextNumeral P d = Inr (d1, False) \<Longrightarrow> d1 = d"
  by (auto simp: NextNumeral_def split: if_splits sum.splits option.splits)

lemma NextWord_after_no_numeral:
  assumes "\<not> AtEndOfSentence d" and "NextNumeral P d = Inr (d, False)"
    and "NextWord P d = Inr (d2, b)"
  shows "i d2 = i d + 1 \<and> str d2 = str d \<and> b"
  using assms
  by (auto simp: NextNumeral_def NextWord_def AtEndOfSentence_def
           split: if_splits sum.splits option.splits)

function jumpLoop :: "parser \<Rightarrow> Dispenser \<Rightarrow> error + Dispenser" where
  "jumpLoop P d =
     (if AtEndOfSentence d then Inr d
      else (case NextNumeral P d of
              Inl e \<Rightarrow> Inl e
            | Inr (d1, found) \<Rightarrow>
                if found then Inr (d1\<lparr>i := i d1 - 1, continueNextSentence := True\<rparr>)
                else (case NextWord P d1 of
                        Inl e \<Rightarrow> Inl e
                      | Inr (d2, moved) \<Rightarrow> jumpLoop P d2)))"
  by pat_completeness auto
termination
proof (relation "measure (\<lambda>(P, d). nat (int (length (str d)) - i d))")
  show "wf (measure (\<lambda>(P, d). nat (int (length (str d)) - i d)))"
    by simp
next
  fix P d r d1 found r2 d2 moved
  assume a: "\<not> AtEndOfSentence d" "NextNumeral P d = Inr r" "(d1, found) = r" "\<not> found"
            "NextWord P d1 = Inr r2" "(d2, moved) = r2"
  from a have "d1 = d"
    by (auto dest: NextNumeral_False)
  with a have "i d2 = i d + 1 \<and> str d2 = str d \<and> moved"
    using NextWord_after_no_numeral [of d P d2 moved] by auto
  moreover from a have "i d < int (length (str d))"
    by (auto simp: AtEndOfSentence_def split: if_splits)
  ultimately show "((P, d2), (P, d)) \<in> measure (\<lambda>(P, d). nat (int (length (str d)) - i d))"
    by simp
qed

declare jumpLoop.simps [simp del]

definition JumpNextNumeral :: "parser \<Rightarrow> Dispenser \<Rightarrow> error + (Dispenser \<times> bool)" where
  "JumpNextNumeral P d =
     (let start = i d
      in case jumpLoop P d of
           Inl e \<Rightarrow> Inl e
         | Inr d1 \<Rightarrow>
             (case NextNumeral P d1 of
                Inl e \<Rightarrow> Inl e
              | Inr (d2, hasNext) \<Rightarrow>
                  if \<not> hasNext \<and> AtEndOfSentence d2 then Inr (d2\<lparr>i := start\<rparr>, False)
                  else Inr (d2\<lparr>continueNextSentence := True\<rparr>, True)))"

text \<open>
  \<open>strings.Split(s, " ")\<close>: the pieces between single spaces; never an empty slice
  (the empty string gives one empty piece).
\<close>

fun splitSpace :: "string \<Rightarrow> string list" where
  "splitSpace [] = [[]]"
| "splitSpace (c # cs) =
     (if c = CHR '' '' then [] # splitSpace cs
      else (case splitSpace cs of [] \<Rightarrow> [[c]] | w # ws \<Rightarrow> (c # w) # ws))"

definition NewDispenserFromSentence :: "string \<Rightarrow> Dispenser" where
  "NewDispenserFromSentence s =
     (let strArr = map (\<lambda>word. word @ '' '') (splitSpace s);
          lastWord = last strArr
      in \<lparr>i = 0, continueNextSentence = False,
          str = strArr[length strArr - 1 := take (length lastWord - 1) lastWord]\<rparr>)"

subsection \<open>A reference parser for plain decimal literals\<close>

text \<open>
  Concrete runs need a concrete parser. \<open>parseDecimal\<close> accepts what
  \<open>strconv.ParseFloat\<close> accepts among the strings made of an optional sign, digits and
  at most one decimal point (at least one digit), and gives the exact value.
\<close>

definition isDigit :: "char \<Rightarrow> bool" where
  "isDigit c = (48 \<le> (of_char c :: nat) \<and> (of_char c :: nat) \<le> 57)"

fun digitsValue :: "string \<Rightarrow> nat \<Rightarrow> nat" where
  "digitsValue [] acc = acc"
| "digitsValue (c # cs) acc = digitsValue cs (10 * acc + (of_char c - 48))"

definition parseUnsigned :: "string \<Rightarrow> rat option" where
  "parseUnsigned s =
     (let ip = takeWhile (\<lambda>c. c \<noteq> CHR ''.'') s;
          fp = drop 1 (dropWhile (\<lambda>c. c \<noteq> CHR ''.'') s)
      in if ip = [] \<and> fp = [] then None
         else if list_all isDigit ip \<and> list_all isDigit fp
         then Some (of_nat (digitsValue ip 0) + of_nat (digitsValue fp 0) / 10 ^ length fp)
         else None)"

definition parseDecimal :: parser where
  "parseDecimal s =
     (case s of
        [] \<Rightarrow> None
      | c # t \<Rightarrow> if c = CHR ''-'' then map_option uminus (parseUnsigned t)
                 else if c = CHR ''+'' then parseUnsigned t
                 else parseUnsigned s)"

section \<open>The statement record\<close>

record Dollar =
  Cents :: int
  HasValue :: bool

text \<open>
  The conversion \<open>int64(x)\<close> and \<open>int(x)\<close> of a float truncates toward zero. Integers are
  unbounded in the model.
\<close>

definition floatToInt :: "rat \<Rightarrow> int" where
  "floatToInt x = (if 0 \<le> x then \<lfloor>x\<rfloor> else \<lceil>x\<rceil>)"

definition NewDollar :: "rat \<Rightarrow> Dollar" where
  "NewDollar number = \<lparr>Cents = floatToInt (number * 100 + 1 / 2), HasValue = True\<rparr>"

text \<open>
  \<open>time.Time\<close> as year, month and day; its zero value is 1 January of year 1.
  \<open>time.Parse\<close> with the layout \<open>02 January 2006\<close> is a parameter \<open>T\<close>.
\<close>

datatype Time = Date nat nat nat

type_synonym timeParser = "string \<Rightarrow> Time option"

record Statement =
  Entity :: string
  ASXCode :: string
  AccountHolders :: "string list"
  PaymentDate :: Time
  TotalPayment :: Dollar
  FrankingCredit :: Dollar
  UnfrankedAmount :: Dollar
  FrankedAmount :: Dollar
  WithholdingTax :: Dollar
  SharesAllotted :: int
  CostOfSharesAllotted :: Dollar
  TotalShares :: int

text \<open>The zero value of \<open>Statement\<close>, what \<open>var state statement.Statement\<close> declares.\<close>

definition zeroDollar :: Dollar where
  "zeroDollar = \<lparr>Cents = 0, HasValue = False\<rparr>"

definition zeroStatement :: Statement where
  "zeroStatement =
     \<lparr>Entity = [], ASXCode = [], AccountHolders = [], PaymentDate = Date 1 1 1,
      TotalPayment = zeroDollar, FrankingCredit = zeroDollar, UnfrankedAmount = zeroDollar,
      FrankedAmount = zeroDollar, WithholdingTax = zeroDollar, SharesAllotted = 0,
      CostOfSharesAllotted = zeroDollar, TotalShares = 0\<rparr>"

section \<open>The operator-stream interpreter\<close>

text \<open>
  Of \<open>textTracker\<close> the model keeps the fragments (the field \<open>text\<close>, here \<open>text'\<close>),
  the selected font and the operand stack. The document reader is not code of this repository: \<open>ForcedArray\<close> is the
  parameter \<open>FA\<close> (an operand's bytes to its elements), and decoding an element through
  the character map of a font is the parameter \<open>dec\<close>.
\<close>

record textTracker =
  text' :: "string list"
  font :: string
  stack :: "string list"

text \<open>The body of the loop of \<open>write\<close> (here \<open>write'\<close>), for the element \<open>a\<close> of the array.\<close>

definition writeElem :: "(string \<Rightarrow> string) \<Rightarrow> string \<Rightarrow> string list \<Rightarrow> error + string list" where
  "writeElem decode a txt =
     (case a of
        [] \<Rightarrow> Inl IndexOutOfRange
      | c # cs \<Rightarrow>
          if c = CHR ''('' \<or> c = CHR ''<'' then
            (let s = decode a
             in if s = '' '' \<and> length txt > 0
                then Inr (txt[length txt - 1 := txt ! (length txt - 1) @ '' ''])
                else Inr (txt @ [s]))
          else Inr txt)"

fun writeLoop :: "(string \<Rightarrow> string) \<Rightarrow> string list \<Rightarrow> string list \<Rightarrow> error + string list" where
  "writeLoop decode [] txt = Inr txt"
| "writeLoop decode (a # tx) txt =
     (case writeElem decode a txt of Inl e \<Rightarrow> Inl e | Inr txt' \<Rightarrow> writeLoop decode tx txt')"

definition write' ::
  "(string \<Rightarrow> string list) \<Rightarrow> (string \<Rightarrow> string \<Rightarrow> string) \<Rightarrow> textTracker \<Rightarrow> string
     \<Rightarrow> error + textTracker" where
  "write' FA dec t a =
     (case writeLoop (dec (font t)) (FA a) (text' t) of
        Inl e \<Rightarrow> Inl e
      | Inr txt \<Rightarrow> Inr (t\<lparr>text' := txt\<rparr>))"

definition push :: "textTracker \<Rightarrow> string \<Rightarrow> textTracker" where
  "push t a = t\<lparr>stack := stack t @ [a]\<rparr>"

text \<open>\<open>drop\<close> (here \<open>drop'\<close>) slices the top \<open>num\<close> operands off; a shorter stack panics.\<close>

definition drop' :: "textTracker \<Rightarrow> nat \<Rightarrow> error + (textTracker \<times> string list)" where
  "drop' t num =
     (if length (stack t) < num then Inl SliceBoundsOutOfRange
      else Inr (t\<lparr>stack := take (length (stack t) - num) (stack t)\<rparr>,
                drop (length (stack t) - num) (stack t)))"

text \<open>One round of the loop of \<open>process\<close>, for a non-empty token.\<close>

definition processToken ::
  "(string \<Rightarrow> string list) \<Rightarrow> (string \<Rightarrow> string \<Rightarrow> string) \<Rightarrow> textTracker \<Rightarrow> string
     \<Rightarrow> error + textTracker" where
  "processToken FA dec t token =
     (if token \<in> set [''B'', ''B*'', ''F'', ''S'', ''b'', ''b*'', ''f'', ''f*'', ''h'', ''n'',
                       ''s'', ''BT'', ''ET'', ''T*'', ''EMC'']
      then Inr t
      else if token \<in> set [''G'', ''J'', ''M'', ''g'', ''gs'', ''i'', ''j'', ''w'', ''TL'', ''Tc'',
                            ''Tr'', ''Ts'', ''Tw'', ''Tz'', ''BMC'', ''MP'']
      then map_sum id fst (drop' t 1)
      else if token \<in> set [''l'', ''m'', ''TD'', ''Td'', ''BDC'', ''DP'']
      then map_sum id fst (drop' t 2)
      else if token \<in> set [''RG'', ''rg'']
      then map_sum id fst (drop' t 3)
      else if token \<in> set [''re'', ''v'', ''y'', ''K'', ''k'']
      then map_sum id fst (drop' t 4)
      else if token \<in> set [''c'', ''cm'', ''Tm'']
      then map_sum id fst (drop' t 6)
      else if token = ''Tf''
      then (case drop' t 2 of
              Inl e \<Rightarrow> Inl e
            | Inr (t', ops) \<Rightarrow> Inr (t'\<lparr>font := ops ! 0\<rparr>))
      else if token \<in> set [[CHR 0x27], ''TJ'', ''Tj'']
      then (case drop' t 1 of
              Inl e \<Rightarrow> Inl e
            | Inr (t', ops) \<Rightarrow> write' FA dec t' (ops ! 0))
      else if token = [CHR 0x22]
      then (case drop' t 3 of
              Inl e \<Rightarrow> Inl e
            | Inr (t', ops) \<Rightarrow> write' FA dec t' (ops ! 2))
      else Inr (push t token))"

text \<open>
  \<open>process\<close> reads tokens until the tokenizer gives an empty one; the tokens of the
  stream are the list \<open>tokens\<close>.
\<close>

fun process ::
  "(string \<Rightarrow> string list) \<Rightarrow> (string \<Rightarrow> string \<Rightarrow> string) \<Rightarrow> textTracker \<Rightarrow> string list
     \<Rightarrow> error + textTracker" where
  "process FA dec t [] = Inr t"
| "process FA dec t (token # tokens) =
     (if token = [] then Inr t
      else (case processToken FA dec t token of
              Inl e \<Rightarrow> Inl e
            | Inr t' \<Rightarrow> process FA dec t' tokens))"

subsection \<open>Showing text, in the words of the specification\<close>

text \<open>
  The elements of an operand array that are decoded: those that start with an opening
  parenthesis or an opening angle bracket.
\<close>

definition isStringElem :: "string \<Rightarrow> bool" where
  "isStringElem a = (a \<noteq> [] \<and> (hd a = CHR ''('' \<or> hd a = CHR ''<''))"

text \<open>
  What one decoded string does to the fragment list: a single space is merged into the
  last fragment as its trailing space when there is a last fragment; anything else, and
  a single space when the list is empty, is appended as a new fragment.
\<close>

definition showString :: "string list \<Rightarrow> string \<Rightarrow> string list" where
  "showString txt s =
     (if s = '' '' \<and> txt \<noteq> [] then butlast txt @ [last txt @ '' ''] else txt @ [s])"

text \<open>The fragment list after the strings of an operand array have been shown, in order.\<close>

definition shownText :: "(string \<Rightarrow> string) \<Rightarrow> string list \<Rightarrow> string list \<Rightarrow> string list" where
  "shownText decode elems txt = foldl showString txt (map decode (filter isStringElem elems))"

section \<open>The statement extractor\<close>

subsection \<open>More of the Go string library\<close>

text \<open>
  \<open>strings.ToLower\<close> and \<open>strings.ToUpper\<close> on the ASCII letters; other bytes are kept.
  The Go functions also map the letters outside ASCII; the model agrees with them on
  ASCII strings, which is what the label table and every concrete run here consist of.
\<close>

definition lowerChar :: "char \<Rightarrow> char" where
  "lowerChar c = (if 65 \<le> (of_char c :: nat) \<and> (of_char c :: nat) \<le> 90
                  then char_of ((of_char c :: nat) + 32) else c)"

definition upperChar :: "char \<Rightarrow> char" where
  "upperChar c = (if 97 \<le> (of_char c :: nat) \<and> (of_char c :: nat) \<le> 122
                  then char_of ((of_char c :: nat) - 32) else c)"

definition ToLower :: "string \<Rightarrow> string" where
  "ToLower s = map lowerChar s"

definition ToUpper :: "string \<Rightarrow> string" where
  "ToUpper s = map upperChar s"

text \<open>The test \<open>len(s) >= len(p) && s[:len(p)] == p\<close>.\<close>

definition hasPrefix :: "string \<Rightarrow> string \<Rightarrow> bool" where
  "hasPrefix s p = (length s \<ge> length p \<and> take (length p) s = p)"

fun Contains :: "string \<Rightarrow> string \<Rightarrow> bool" where
  "Contains [] sub = (sub = [])"
| "Contains (c # cs) sub = (if hasPrefix (c # cs) sub then True else Contains cs sub)"

fun Join :: "string list \<Rightarrow> string \<Rightarrow> string" where
  "Join [] sep = []"
| "Join [x] sep = x"
| "Join (x # y # ys) sep = x @ sep @ Join (y # ys) sep"

subsection \<open>Label recognition\<close>

datatype headerType =
  headerFranked
| headerUnfranked
| headerFrankingCredit
| headerWithholdingTax
| headerSharesAllotted
| headerCostOfSharesAllotted
| headerTotalShares
| headerTotalPayment
| headerOther

fun numeralHeaders :: "headerType \<Rightarrow> string list" where
  "numeralHeaders headerFranked = [''franked amount'']"
| "numeralHeaders headerUnfranked = [''unfranked'']"
| "numeralHeaders headerWithholdingTax = [''withholding tax'', ''less withholding tax'']"
| "numeralHeaders headerSharesAllotted = [''number of shares allotted'']"
| "numeralHeaders headerCostOfSharesAllotted = [''cost of shares allotted'']"
| "numeralHeaders headerTotalShares = [''total shares'']"
| "numeralHeaders headerTotalPayment = [''total payment'', ''total amount'']"
| "numeralHeaders headerFrankingCredit = [''franking credit'']"
| "numeralHeaders headerOther =
     [''dividend rate'', ''participating shares'', ''participating holding'', ''net amount'',
      ''dividend reinvestment plan amount'', ''cash balance brought forward'',
      ''amount available from this payment'', ''total amount available for reinvestment'',
      ''cash balance carried forward'']"

text \<open>
  The \<open>switch\<close> of \<open>numeralHeader\<close>: the cases that \<open>continue\<close>, that is, skip a matching
  label because its field is populated. \<open>headerOther\<close> has no case.
\<close>

fun populated :: "headerType \<Rightarrow> Statement \<Rightarrow> bool" where
  "populated headerFranked st = HasValue (FrankedAmount st)"
| "populated headerUnfranked st = HasValue (UnfrankedAmount st)"
| "populated headerWithholdingTax st = HasValue (WithholdingTax st)"
| "populated headerSharesAllotted st = (SharesAllotted st \<noteq> 0)"
| "populated headerCostOfSharesAllotted st = HasValue (CostOfSharesAllotted st)"
| "populated headerTotalShares st = (TotalShares st \<noteq> 0)"
| "populated headerTotalPayment st = HasValue (TotalPayment st)"
| "populated headerFrankingCredit st = HasValue (FrankingCredit st)"
| "populated headerOther st = False"

text \<open>The inner loop, over the label texts of one header type.\<close>

fun matchTexts :: "string \<Rightarrow> Statement \<Rightarrow> headerType \<Rightarrow> string list \<Rightarrow> bool" where
  "matchTexts s st h [] = False"
| "matchTexts s st h (headerText # rest) =
     (if hasPrefix s headerText then
        (if populated h st then matchTexts s st h rest else True)
      else matchTexts s st h rest)"

text \<open>
  The outer loop ranges over a Go map, whose iteration order is not specified: the order
  in which this call visits the header types is the parameter \<open>order\<close>.
\<close>

fun numeralHeaderLoop :: "string \<Rightarrow> Statement \<Rightarrow> headerType list \<Rightarrow> headerType option" where
  "numeralHeaderLoop s st [] = None"
| "numeralHeaderLoop s st (h # hs) =
     (if matchTexts s st h (numeralHeaders h) then Some h else numeralHeaderLoop s st hs)"

definition numeralHeader :: "headerType list \<Rightarrow> string \<Rightarrow> Statement \<Rightarrow> headerType option" where
  "numeralHeader order s st = numeralHeaderLoop (ToLower s) st order"

text \<open>The order in which the map literal lists its keys.\<close>

definition sourceOrder :: "headerType list" where
  "sourceOrder =
     [headerFranked, headerUnfranked, headerWithholdingTax, headerSharesAllotted,
      headerCostOfSharesAllotted, headerTotalShares, headerTotalPayment,
      headerFrankingCredit, headerOther]"

subsection \<open>Positional patterns\<close>

text \<open>
  \<open>findOtherData\<close> in its three steps. The two \<open>fmt.Println\<close> calls of a failed date
  parse write to standard output and are not part of the model.
\<close>

definition findEntity :: "string \<Rightarrow> Dispenser \<Rightarrow> Statement \<Rightarrow> error + (Dispenser \<times> Statement)" where
  "findEntity sentence d st =
     (if length sentence > 3 \<and> take 3 sentence = ''ABN'' then
        (case LastSentence d of
           Inl e \<Rightarrow> Inl e
         | Inr d1 \<Rightarrow>
             (case DumpSentence d1 of
                Inl e \<Rightarrow> Inl e
              | Inr (d2, sent) \<Rightarrow>
                  (case NextSentence d2 of
                     Inl e \<Rightarrow> Inl e
                   | Inr (d3, ok) \<Rightarrow> Inr (d3, st\<lparr>Entity := sent\<rparr>))))
      else Inr (d, st))"

definition findASXCode :: "string \<Rightarrow> Statement \<Rightarrow> Statement" where
  "findASXCode sentence st =
     (if length sentence > 10 \<and> ToLower (take 10 sentence) = ''asx code: ''
      then st\<lparr>ASXCode := ToUpper (drop 10 sentence)\<rparr>
      else st)"

definition findPaymentDate ::
  "timeParser \<Rightarrow> string \<Rightarrow> Dispenser \<Rightarrow> Statement \<Rightarrow> error + (Dispenser \<times> Statement)" where
  "findPaymentDate T sentence d st =
     (if Contains (ToLower sentence) ''payment date''
         \<or> Contains (ToLower sentence) ''holder reference number'' then
        (case NextSentence d of
           Inl e \<Rightarrow> Inl e
         | Inr (d1, ok) \<Rightarrow>
             (case DumpSentence d1 of
                Inl e \<Rightarrow> Inl e
              | Inr (d2, sent) \<Rightarrow>
                  (case LastSentence d2 of
                     Inl e \<Rightarrow> Inl e
                   | Inr d3 \<Rightarrow>
                       Inr (d3, (case T sent of
                                   None \<Rightarrow> st
                                 | Some t \<Rightarrow> st\<lparr>PaymentDate := t\<rparr>)))))
      else Inr (d, st))"

definition findOtherData ::
  "timeParser \<Rightarrow> string \<Rightarrow> Dispenser \<Rightarrow> Statement \<Rightarrow> error + (Dispenser \<times> Statement)" where
  "findOtherData T sentence d st =
     (case findEntity sentence d st of
        Inl e \<Rightarrow> Inl e
      | Inr (d1, st1) \<Rightarrow> findPaymentDate T sentence d1 (findASXCode sentence st1))"

subsection \<open>Binding a numeral to the oldest pending label\<close>

text \<open>
  The \<open>switch\<close> on \<open>numeralHeadTracker[0]\<close>: each case reads \<open>numD.Numeral()\<close> itself;
  \<open>headerOther\<close> has no case and binds nothing.
\<close>

fun bindField :: "parser \<Rightarrow> headerType \<Rightarrow> Dispenser \<Rightarrow> Statement \<Rightarrow> error + Statement" where
  "bindField P headerFranked numD st =
     (case Numeral P numD of Inl e \<Rightarrow> Inl e
      | Inr v \<Rightarrow> Inr (st\<lparr>FrankedAmount := NewDollar v\<rparr>))"
| "bindField P headerUnfranked numD st =
     (case Numeral P numD of Inl e \<Rightarrow> Inl e
      | Inr v \<Rightarrow> Inr (st\<lparr>UnfrankedAmount := NewDollar v\<rparr>))"
| "bindField P headerWithholdingTax numD st =
     (case Numeral P numD of Inl e \<Rightarrow> Inl e
      | Inr v \<Rightarrow> Inr (st\<lparr>WithholdingTax := NewDollar v\<rparr>))"
| "bindField P headerSharesAllotted numD st =
     (case Numeral P numD of Inl e \<Rightarrow> Inl e
      | Inr v \<Rightarrow> Inr (st\<lparr>SharesAllotted := floatToInt v\<rparr>))"
| "bindField P headerCostOfSharesAllotted numD st =
     (case Numeral P numD of Inl e \<Rightarrow> Inl e
      | Inr v \<Rightarrow> Inr (st\<lparr>CostOfSharesAllotted := NewDollar v\<rparr>))"
| "bindField P headerTotalShares numD st =
     (case Numeral P numD of Inl e \<Rightarrow> Inl e
      | Inr v \<Rightarrow> Inr (st\<lparr>TotalShares := floatToInt v\<rparr>))"
| "bindField P headerTotalPayment numD st =
     (case Numeral P numD of Inl e \<Rightarrow> Inl e
      | Inr v \<Rightarrow> Inr (st\<lparr>TotalPayment := NewDollar v\<rparr>))"
| "bindField P headerFrankingCredit numD st =
     (case Numeral P numD of Inl e \<Rightarrow> Inl e
      | Inr v \<Rightarrow> Inr (st\<lparr>FrankingCredit := NewDollar v\<rparr>))"
| "bindField P headerOther numD st = Inr st"

text \<open>
  The last block of the loop body of \<open>processText\<close>: with a label pending, look for a
  numeral in a fresh dispenser over the sentence.
\<close>

definition bindPending ::
  "parser \<Rightarrow> string \<Rightarrow> Statement \<Rightarrow> headerType list \<Rightarrow> error + (Statement \<times> headerType list)" where
  "bindPending P sentence st numeralHeadTracker =
     (if length numeralHeadTracker > 0 then
        (case NextSentence (NewDispenserFromSentence sentence) of
           Inl e \<Rightarrow> Inl e
         | Inr (numD, ok) \<Rightarrow>
             (case JumpNextNumeral P numD of
                Inl e \<Rightarrow> Inl e
              | Inr (numD', found) \<Rightarrow>
                  if found \<and> Position numD' < 5 then
                    (case bindField P (hd numeralHeadTracker) numD' st of
                       Inl e \<Rightarrow> Inl e
                     | Inr st' \<Rightarrow> Inr (st', tl numeralHeadTracker))
                  else Inr (st, numeralHeadTracker)))
      else Inr (st, numeralHeadTracker))"

subsection \<open>The loop of processText\<close>

text \<open>
  The state of the loop: the dispenser, the statement built so far and the queue of
  pending labels.
\<close>

type_synonym extraction = "Dispenser \<times> Statement \<times> headerType list"

text \<open>The loop body, entered after \<open>NextSentence\<close> has returned true.\<close>

definition processSentence ::
  "parser \<Rightarrow> timeParser \<Rightarrow> headerType list \<Rightarrow> string list \<Rightarrow> extraction \<Rightarrow> error + extraction" where
  "processSentence P T order holders x =
     (case x of (d, st, numeralHeadTracker) \<Rightarrow>
        (case DumpSentence d of
           Inl e \<Rightarrow> Inl e
         | Inr (d1, sentence) \<Rightarrow>
             (case numeralHeader order sentence st of
                Some headType \<Rightarrow> Inr (d1, st, numeralHeadTracker @ [headType])
              | None \<Rightarrow>
                  (case StartOfSentence d1 of
                     Inl e \<Rightarrow> Inl e
                   | Inr d2 \<Rightarrow>
                       (case DumpNSentences d2 5 of
                          Inl e \<Rightarrow> Inl e
                        | Inr (d3, sentences) \<Rightarrow>
                            (let newSentence = Join sentences '' '';
                                 st1 = (if length (AccountHolders st) = 0
                                        then st\<lparr>AccountHolders :=
                                               filter (\<lambda>holder. Contains (ToLower newSentence)
                                                                   (ToLower holder)) holders\<rparr>
                                        else st)
                             in case numeralHeader order newSentence st1 of
                                  Some headType \<Rightarrow> Inr (d3, st1, numeralHeadTracker @ [headType])
                                | None \<Rightarrow>
                                    (case findOtherData T sentence d3 st1 of
                                       Inl e \<Rightarrow> Inl e
                                     | Inr (d4, st2) \<Rightarrow>
                                         (case bindPending P sentence st2 numeralHeadTracker of
                                            Inl e \<Rightarrow> Inl e
                                          | Inr (st3, q) \<Rightarrow> Inr (d4, st3, q)))))))))"

text \<open>
  The loop \<open>for d.NextSentence() { ... }\<close>. The positional patterns move the cursor
  backwards, so the loop is given fuel: \<open>None\<close> is a run that has not ended within \<open>fuel\<close>
  rounds.
\<close>

fun processLoop ::
  "nat \<Rightarrow> parser \<Rightarrow> timeParser \<Rightarrow> headerType list \<Rightarrow> string list \<Rightarrow> extraction
     \<Rightarrow> (error + Statement) option" where
  "processLoop 0 P T order holders x = None"
| "processLoop (Suc fuel) P T order holders x =
     (case x of (d, st, numeralHeadTracker) \<Rightarrow>
        (case NextSentence d of
           Inl e \<Rightarrow> Some (Inl e)
         | Inr (d1, ok) \<Rightarrow>
             if \<not> ok then Some (Inr st)
             else (case processSentence P T order holders (d1, st, numeralHeadTracker) of
                     Inl e \<Rightarrow> Some (Inl e)
                   | Inr x' \<Rightarrow> processLoop fuel P T order holders x')))"

definition processText ::
  "nat \<Rightarrow> parser \<Rightarrow> timeParser \<Rightarrow> headerType list \<Rightarrow> string list \<Rightarrow> string list
     \<Rightarrow> (error + Statement) option" where
  "processText fuel P T order txt holders =
     processLoop fuel P T order holders (NewDispenser txt, zeroStatement, [])"

text \<open>
  The states of the loop after each round, in order: what \<open>processLoop\<close> passes to its
  next round. The trace ends when \<open>NextSentence\<close> returns false, at a panic, or when the
  fuel is used up.
\<close>

fun processTrace ::
  "nat \<Rightarrow> parser \<Rightarrow> timeParser \<Rightarrow> headerType list \<Rightarrow> string list \<Rightarrow> extraction
     \<Rightarrow> (error + extraction) list" where
  "processTrace 0 P T order holders x = []"
| "processTrace (Suc fuel) P T order holders x =
     (case x of (d, st, numeralHeadTracker) \<Rightarrow>
        (case NextSentence d of
           Inl e \<Rightarrow> [Inl e]
         | Inr (d1, ok) \<Rightarrow>
             if \<not> ok then []
             else (case processSentence P T order holders (d1, st, numeralHeadTracker) of
                     Inl e \<Rightarrow> [Inl e]
                   | Inr x' \<Rightarrow> Inr x' # processTrace fuel P T order holders x')))"

section \<open>Sentences, in the words of the specification\<close>

text \<open>
  A sentence is a maximal run of fragments ended by a fragment without a trailing space.
  \<open>sentenceOf ws\<close> is the sentence that starts at the head of \<open>ws\<close>: the fragments up to
  and including the first one without a trailing space, or all of \<open>ws\<close> when every
  fragment has one. It is written from the specification, to be compared with the loops
  of the code.
\<close>

fun sentenceOf :: "string list \<Rightarrow> string list" where
  "sentenceOf [] = []"
| "sentenceOf (w # ws) = (if last w = CHR '' '' then w # sentenceOf ws else [w])"

section \<open>Helper facts about the sentence loops\<close>

lemma dumpLoop_sentenceOf:
  assumes "0 \<le> k" and "\<forall>w \<in> set xs. w \<noteq> []"
  shows "dumpLoop xs k acc
           = Inr (k + int (length (sentenceOf (drop (nat k) xs))),
                  acc @ concat (sentenceOf (drop (nat k) xs)))"
  using assms
proof (induction xs k acc rule: dumpLoop.induct)
  case (1 xs k sentence)
  show ?case
  proof (cases "k < int (length xs)")
    case False
    then show ?thesis by (subst dumpLoop.simps) simp
  next
    case True
    with "1.prems" have n: "nat k < length xs" by simp
    then have ne: "xs ! nat k \<noteq> []"
      using "1.prems"(2) nth_mem by blast
    have dr: "drop (nat k) xs = xs ! nat k # drop (nat (k + 1)) xs"
      using n "1.prems"(1) by (simp add: Cons_nth_drop_Suc nat_add_distrib)
    have ix: "index xs k = Inr (xs ! nat k)"
      using True "1.prems"(1) by (simp add: index_def)
    have nt: "noTrailingSpace xs k = Inr (last (xs ! nat k) \<noteq> CHR '' '')"
      using ix ne by (simp add: noTrailingSpace_def lastByte_def)
    show ?thesis
    proof (cases "last (xs ! nat k) = CHR '' ''")
      case sp: True
      have "dumpLoop xs k sentence = dumpLoop xs (k + 1) (sentence @ xs ! nat k)"
        using True ix nt sp by (subst dumpLoop.simps) simp
      also have "\<dots> = Inr (k + 1 + int (length (sentenceOf (drop (nat (k + 1)) xs))),
                  (sentence @ xs ! nat k) @ concat (sentenceOf (drop (nat (k + 1)) xs)))"
        using "1.IH" [OF True ix nt] sp "1.prems" by simp
      finally show ?thesis using dr sp by simp
    next
      case nsp: False
      have "dumpLoop xs k sentence = Inr (k + 1, sentence @ xs ! nat k)"
        using True ix nt nsp by (subst dumpLoop.simps) simp
      then show ?thesis using dr nsp by simp
    qed
  qed
qed

lemma skipSentence_total:
  assumes "0 \<le> k" and "\<forall>w \<in> set xs. w \<noteq> []"
  shows "\<exists>k'. skipSentence xs k = Inr k' \<and> k \<le> k'"
  using assms
proof (induction xs k rule: skipSentence.induct)
  case (1 xs k)
  show ?case
  proof (cases "k < int (length xs)")
    case False
    then show ?thesis by (subst skipSentence.simps) simp
  next
    case True
    with "1.prems" have "xs ! nat k \<noteq> []"
      using nth_mem [of "nat k" xs] by auto
    then have nt: "noTrailingSpace xs k = Inr (last (xs ! nat k) \<noteq> CHR '' '')"
      using True "1.prems"(1) by (simp add: noTrailingSpace_def index_def lastByte_def)
    show ?thesis
    proof (cases "last (xs ! nat k) \<noteq> CHR '' ''")
      case True
      then show ?thesis using \<open>k < int (length xs)\<close> nt
        by (subst skipSentence.simps) simp
    next
      case False
      then obtain k' where "skipSentence xs (k + 1) = Inr k'" "k + 1 \<le> k'"
        using "1.IH" [OF True nt] "1.prems" by auto
      then show ?thesis using True nt False
        by (subst skipSentence.simps) simp
    qed
  qed
qed

lemma NextSentence_total:
  assumes "0 \<le> i d" and "\<forall>w \<in> set (str d). w \<noteq> []"
  shows "\<exists>d' b. NextSentence d = Inr (d', b) \<and> str d' = str d \<and> 0 \<le> i d'"
proof -
  obtain k' where "skipSentence (str d) (i d) = Inr k'" "i d \<le> k'"
    using skipSentence_total [OF assms] by blast
  then show ?thesis
    using assms(1) by (auto simp: NextSentence_def)
qed

lemma DumpSentence_total:
  assumes "0 \<le> i d" and "\<forall>w \<in> set (str d). w \<noteq> []"
  shows "\<exists>d' s. DumpSentence d = Inr (d', s) \<and> str d' = str d \<and> 0 \<le> i d'"
  using assms by (simp add: DumpSentence_def dumpLoop_sentenceOf)

lemma dumpMore_total:
  assumes "0 \<le> i d" and "\<forall>w \<in> set (str d). w \<noteq> []"
  shows "\<exists>d' ss. dumpMore m d acc = Inr (d', ss) \<and> str d' = str d"
  using assms
proof (induction m arbitrary: d acc)
  case 0
  then show ?case by simp
next
  case (Suc m)
  obtain d1 b where n: "NextSentence d = Inr (d1, b)" "str d1 = str d" "0 \<le> i d1"
    using NextSentence_total [OF Suc.prems] by blast
  show ?case
  proof (cases b)
    case False
    then show ?thesis using n by simp
  next
    case True
    obtain d2 s where ds: "DumpSentence d1 = Inr (d2, s)" "str d2 = str d1" "0 \<le> i d2"
      using DumpSentence_total [of d1] n Suc.prems by auto
    obtain d' ss where "dumpMore m d2 (acc @ [s]) = Inr (d', ss)" "str d' = str d2"
      using Suc.IH [of d2 "acc @ [s]"] ds n Suc.prems by auto
    then show ?thesis using n ds True by simp
  qed
qed

section \<open>Helper facts about the jump loop\<close>

lemma jumpLoop_result:
  assumes "0 \<le> i d" and "\<forall>w \<in> set (str d). w \<noteq> []"
  shows "\<exists>d'. jumpLoop P d = Inr d' \<and> str d' = str d \<and> i d \<le> i d'
              \<and> (\<forall>j. i d \<le> j \<and> j < i d' \<longrightarrow> getNumeral P (str d ! nat j) = None)
              \<and> (AtEndOfSentence d'
                   \<or> (continueNextSentence d' \<and> i d' < int (length (str d))
                       \<and> getNumeral P (str d ! nat (i d')) \<noteq> None))"
  using assms
proof (induction P d rule: jumpLoop.induct)
  case (1 P d)
  show ?case
  proof (cases "AtEndOfSentence d")
    case True
    then have "jumpLoop P d = Inr d" by (subst jumpLoop.simps) simp
    with True show ?thesis by auto
  next
    case notEnd: False
    then have lt: "i d < int (length (str d))" and c: "continueNextSentence d"
      by (auto simp: AtEndOfSentence_def split: if_splits)
    have ne: "str d ! nat (i d) \<noteq> []"
      using lt "1.prems" by (simp add: nth_mem)
    show ?thesis
    proof (cases "getNumeral P (str d ! nat (i d))")
      case (Some v)
      then have "jumpLoop P d = Inr (d\<lparr>continueNextSentence := True\<rparr>)"
        using notEnd lt c ne "1.prems"(1)
        by (subst jumpLoop.simps)
           (simp add: NextNumeral_def index_def noTrailingSpace_def lastByte_def)
      then show ?thesis
        using Some lt by auto
    next
      case None
      have nn: "NextNumeral P d = Inr (d, False)"
        using None lt c "1.prems"(1) by (simp add: NextNumeral_def index_def)
      obtain d2 where nw: "NextWord P d = Inr (d2, True)" and d2: "i d2 = i d + 1" "str d2 = str d"
        using None lt c ne "1.prems"(1)
        by (simp add: NextWord_def index_def noTrailingSpace_def lastByte_def)
      have "\<exists>d'. jumpLoop P d2 = Inr d' \<and> str d' = str d2 \<and> i d2 \<le> i d'
              \<and> (\<forall>j. i d2 \<le> j \<and> j < i d' \<longrightarrow> getNumeral P (str d2 ! nat j) = None)
              \<and> (AtEndOfSentence d'
                   \<or> (continueNextSentence d' \<and> i d' < int (length (str d2))
                       \<and> getNumeral P (str d2 ! nat (i d')) \<noteq> None))"
        using "1.IH" [OF notEnd nn refl _ nw refl] d2 "1.prems" by simp
      then obtain d' where d': "jumpLoop P d2 = Inr d'" "str d' = str d" "i d + 1 \<le> i d'"
          "\<forall>j. i d + 1 \<le> j \<and> j < i d' \<longrightarrow> getNumeral P (str d ! nat j) = None"
          "AtEndOfSentence d' \<or> (continueNextSentence d' \<and> i d' < int (length (str d))
                       \<and> getNumeral P (str d ! nat (i d')) \<noteq> None)"
        using d2 by auto
      have "jumpLoop P d = Inr d'"
        using notEnd nn nw d'(1) by (subst jumpLoop.simps) simp
      moreover have "\<forall>j. i d \<le> j \<and> j < i d' \<longrightarrow> getNumeral P (str d ! nat j) = None"
      proof (intro allI impI)
        fix j assume j: "i d \<le> j \<and> j < i d'"
        show "getNumeral P (str d ! nat j) = None"
        proof (cases "j = i d")
          case True then show ?thesis using None by simp
        next
          case False then show ?thesis using j d'(4) by auto
        qed
      qed
      ultimately show ?thesis using d' by auto
    qed
  qed
qed


lemma JumpNextNumeral_char:
  assumes "0 \<le> i d" and "\<forall>w \<in> set (str d). w \<noteq> []"
  shows "\<exists>d' b. JumpNextNumeral P d = Inr (d', b) \<and> str d' = str d
           \<and> (if b then i d < i d' \<and> i d' \<le> int (length (str d)) \<and> continueNextSentence d'
                      \<and> getNumeral P (str d ! nat (i d' - 1)) \<noteq> None
                      \<and> (\<forall>j. i d \<le> j \<and> j < i d' - 1 \<longrightarrow> getNumeral P (str d ! nat j) = None)
                else i d' = i d)"
proof -
  obtain d1 where l: "jumpLoop P d = Inr d1" and s1: "str d1 = str d" and le: "i d \<le> i d1"
    and skipped: "\<forall>j. i d \<le> j \<and> j < i d1 \<longrightarrow> getNumeral P (str d ! nat j) = None"
    and fin: "AtEndOfSentence d1
              \<or> (continueNextSentence d1 \<and> i d1 < int (length (str d))
                  \<and> getNumeral P (str d ! nat (i d1)) \<noteq> None)"
    using jumpLoop_result [OF assms, of P] by blast
  show ?thesis
  proof (cases "AtEndOfSentence d1")
    case True
    then have "NextNumeral P d1 = Inr (d1, False)"
      by (auto simp: AtEndOfSentence_def NextNumeral_def split: if_splits)
    then have "JumpNextNumeral P d = Inr (d1\<lparr>i := i d\<rparr>, False)"
      using l True by (simp add: JumpNextNumeral_def)
    then show ?thesis using s1
      by (intro exI [of _ "d1\<lparr>i := i d\<rparr>"] exI [of _ False]) simp
  next
    case False
    with fin have c: "continueNextSentence d1" and lt: "i d1 < int (length (str d))"
      and num: "getNumeral P (str d ! nat (i d1)) \<noteq> None"
      by auto
    have "str d ! nat (i d1) \<in> set (str d)"
      using lt le assms(1) by (intro nth_mem) simp
    then have ne: "str d ! nat (i d1) \<noteq> []"
      using assms(2) by metis
    obtain c' where nn: "NextNumeral P d1
        = Inr (d1\<lparr>continueNextSentence := c', i := i d1 + 1\<rparr>, True)"
      using c lt num ne le assms(1) s1
      by (auto simp: NextNumeral_def index_def noTrailingSpace_def lastByte_def)
    have "JumpNextNumeral P d = Inr (d1\<lparr>continueNextSentence := True, i := i d1 + 1\<rparr>, True)"
      using l nn by (simp add: JumpNextNumeral_def)
    then show ?thesis
      using s1 le lt num skipped
      by (intro exI [of _ "d1\<lparr>continueNextSentence := True, i := i d1 + 1\<rparr>"] exI [of _ True])
         simp
  qed
qed

text \<open>
  The same facts about a call that is only known to have returned, with no assumption on
  the fragments: the scratch dispenser of the extractor can end in an empty fragment.
\<close>

lemma jumpLoop_sound:
  assumes "jumpLoop P d = Inr d'" and "0 \<le> i d"
  shows "str d' = str d \<and> i d \<le> i d'
         \<and> (\<forall>j. i d \<le> j \<and> j < i d' \<longrightarrow> getNumeral P (str d ! nat j) = None)
         \<and> (AtEndOfSentence d'
              \<or> (continueNextSentence d' \<and> i d' < int (length (str d))
                  \<and> getNumeral P (str d ! nat (i d')) \<noteq> None))"
  using assms
proof (induction P d rule: jumpLoop.induct)
  case (1 P d)
  show ?case
  proof (cases "AtEndOfSentence d")
    case True
    then have "jumpLoop P d = Inr d" by (subst jumpLoop.simps) simp
    with "1.prems" True show ?thesis by auto
  next
    case notEnd: False
    then have lt: "i d < int (length (str d))" and c: "continueNextSentence d"
      by (auto simp: AtEndOfSentence_def split: if_splits)
    have ix: "index (str d) (i d) = Inr (str d ! nat (i d))"
      using lt "1.prems"(2) by (simp add: index_def)
    show ?thesis
    proof (cases "getNumeral P (str d ! nat (i d))")
      case (Some v)
      have "d' = d\<lparr>continueNextSentence := True\<rparr>"
        using "1.prems"(1) notEnd lt c ix Some
        by (subst (asm) jumpLoop.simps)
           (auto simp: NextNumeral_def split: sum.splits if_splits)
      then show ?thesis using Some lt by auto
    next
      case None
      have nn: "NextNumeral P d = Inr (d, False)"
        using None lt c ix by (simp add: NextNumeral_def)
      obtain d2 moved where nw: "NextWord P d = Inr (d2, moved)" and l2: "jumpLoop P d2 = Inr d'"
        using "1.prems"(1) notEnd nn
        by (subst (asm) jumpLoop.simps) (auto split: sum.splits)
      have d2: "i d2 = i d + 1" "str d2 = str d"
        using NextWord_after_no_numeral [OF notEnd nn nw] by auto
      have ih: "str d' = str d2 \<and> i d2 \<le> i d'
         \<and> (\<forall>j. i d2 \<le> j \<and> j < i d' \<longrightarrow> getNumeral P (str d2 ! nat j) = None)
         \<and> (AtEndOfSentence d'
              \<or> (continueNextSentence d' \<and> i d' < int (length (str d2))
                  \<and> getNumeral P (str d2 ! nat (i d')) \<noteq> None))"
        using "1.IH" [OF notEnd nn refl _ nw refl l2] d2 "1.prems"(2) by simp
      have "\<forall>j. i d \<le> j \<and> j < i d' \<longrightarrow> getNumeral P (str d ! nat j) = None"
      proof (intro allI impI)
        fix j assume j: "i d \<le> j \<and> j < i d'"
        show "getNumeral P (str d ! nat j) = None"
        proof (cases "j = i d")
          case True then show ?thesis using None by simp
        next
          case False then show ?thesis using j ih d2 by auto
        qed
      qed
      then show ?thesis using ih d2 by auto
    qed
  qed
qed

lemma JumpNextNumeral_sound:
  assumes "JumpNextNumeral P d = Inr (d', b)" and "0 \<le> i d"
  shows "str d' = str d
         \<and> (if b then i d < i d' \<and> i d' \<le> int (length (str d))
                    \<and> getNumeral P (str d ! nat (i d' - 1)) \<noteq> None
                    \<and> (\<forall>j. i d \<le> j \<and> j < i d' - 1 \<longrightarrow> getNumeral P (str d ! nat j) = None)
             else i d' = i d)"
proof -
  obtain d1 where l: "jumpLoop P d = Inr d1"
    using assms(1) by (auto simp: JumpNextNumeral_def split: sum.splits)
  note s = jumpLoop_sound [OF l assms(2)]
  show ?thesis
  proof (cases "AtEndOfSentence d1")
    case True
    then have "NextNumeral P d1 = Inr (d1, False)"
      by (auto simp: AtEndOfSentence_def NextNumeral_def split: if_splits)
    then have "d' = d1\<lparr>i := i d\<rparr> \<and> \<not> b"
      using assms(1) l True by (simp add: JumpNextNumeral_def)
    then show ?thesis using s by simp
  next
    case False
    with s have c: "continueNextSentence d1" and lt: "i d1 < int (length (str d))"
      and num: "getNumeral P (str d ! nat (i d1)) \<noteq> None"
      by auto
    have ix: "index (str d1) (i d1) = Inr (str d ! nat (i d1))"
      using lt s assms(2) by (simp add: index_def)
    have "b \<and> i d' = i d1 + 1 \<and> str d' = str d1"
      using assms(1) l c lt num ix s
      by (auto simp: JumpNextNumeral_def NextNumeral_def split: sum.splits if_splits)
    then show ?thesis using s lt num by simp
  qed
qed

section \<open>Helper facts about indexing\<close>

text \<open>
  With the cursor between 0 and the number of fragments, and every fragment non-empty,
  each operation of the dispenser other than \<open>LastSentence\<close> returns, and those that move
  the cursor leave it in that range.
\<close>

lemma noTrailingSpace_in_range:
  assumes "0 \<le> k" and "k < int (length xs)" and "\<forall>w \<in> set xs. w \<noteq> []"
  shows "noTrailingSpace xs k = Inr (last (xs ! nat k) \<noteq> CHR '' '')"
proof -
  have "xs ! nat k \<in> set xs" using assms(1,2) by (intro nth_mem) simp
  then have "xs ! nat k \<noteq> []" using assms(3) by blast
  then show ?thesis using assms(1,2) by (simp add: noTrailingSpace_def index_def lastByte_def)
qed

lemma backToBoundary_total:
  assumes "0 \<le> k" and "k < int (length xs) \<or> k = 0" and "\<forall>w \<in> set xs. w \<noteq> []"
  shows "\<exists>k'. backToBoundary xs k = Inr k' \<and> 0 \<le> k' \<and> k' \<le> int (length xs)"
  using assms
proof (induction xs k rule: backToBoundary.induct)
  case (1 xs k)
  show ?case
  proof (cases "k > 0")
    case False
    with "1.prems" show ?thesis by (subst backToBoundary.simps) simp
  next
    case True
    with "1.prems" have lt: "k < int (length xs)" by auto
    have nt: "noTrailingSpace xs k = Inr (last (xs ! nat k) \<noteq> CHR '' '')"
      using noTrailingSpace_in_range [OF "1.prems"(1) lt "1.prems"(3)] .
    show ?thesis
    proof (cases "last (xs ! nat k) \<noteq> CHR '' ''")
      case stop: True
      then show ?thesis using True nt lt by (subst backToBoundary.simps) simp
    next
      case False
      then obtain k' where "backToBoundary xs (k - 1) = Inr k'" "0 \<le> k'" "k' \<le> int (length xs)"
        using "1.IH" [OF True nt] True lt "1.prems"(3) by auto
      then show ?thesis using True nt False by (subst backToBoundary.simps) simp
    qed
  qed
qed

lemma StartOfSentence_total:
  assumes "0 \<le> i d" and "i d \<le> int (length (str d))" and "\<forall>w \<in> set (str d). w \<noteq> []"
  shows "\<exists>d'. StartOfSentence d = Inr d' \<and> str d' = str d
              \<and> 0 \<le> i d' \<and> i d' \<le> int (length (str d))"
proof -
  have sw: "\<exists>b. singleWordSentence d = Inr b"
    using assms noTrailingSpace_in_range [of "i d" "str d"]
          noTrailingSpace_in_range [of "i d - 1" "str d"]
    by (auto simp: singleWordSentence_def)
  then obtain b where b: "singleWordSentence d = Inr b" ..
  have pos: "0 < i d \<and> i d < int (length (str d))" if b
    using that b by (auto simp: singleWordSentence_def split: if_splits)
  define k1 where "k1 = (if i d = int (length (str d)) \<or> \<not> continueNextSentence d then i d - 2 else i d)"
  define k2 where "k2 = (if k1 < 0 then 0 else k1)"
  have "0 \<le> k2" "k2 < int (length (str d)) \<or> k2 = 0"
    using assms(1,2) by (auto simp: k1_def k2_def)
  then obtain k' where k': "backToBoundary (str d) k2 = Inr k'" "0 \<le> k'" "k' \<le> int (length (str d))"
    using backToBoundary_total [of k2 "str d"] assms(3) by blast
  show ?thesis
  proof (cases b)
    case True
    with b pos show ?thesis
      by (simp add: StartOfSentence_def)
  next
    case False
    show ?thesis
    proof (cases "i d = 0 \<or> length (str d) = 1")
      case True
      with b False assms(1,2) show ?thesis
        by (auto simp: StartOfSentence_def)
    next
      case other: False
      then have "StartOfSentence d
          = (case backToBoundary (str d) k2 of
               Inl e \<Rightarrow> Inl e
             | Inr k \<Rightarrow> Inr (d\<lparr>i := k, continueNextSentence := True\<rparr>))"
        using b False by (simp add: StartOfSentence_def Let_def k1_def k2_def)
      with k' show ?thesis by simp
    qed
  qed
qed

lemma skipSentence_bound:
  assumes "0 \<le> k" and "k \<le> int (length xs)" and "skipSentence xs k = Inr k'"
  shows "k' \<le> int (length xs)"
  using assms
proof (induction xs k rule: skipSentence.induct)
  case (1 xs k)
  show ?case
  proof (cases "k < int (length xs)")
    case False
    with "1.prems" show ?thesis by (subst (asm) skipSentence.simps) simp
  next
    case True
    from "1.prems"(3) True obtain b where nt: "noTrailingSpace xs k = Inr b"
      by (subst (asm) skipSentence.simps) (auto split: sum.splits)
    show ?thesis
    proof (cases b)
      case True
      with "1.prems"(3) \<open>k < int (length xs)\<close> nt show ?thesis
        by (subst (asm) skipSentence.simps) auto
    next
      case False
      with "1.prems"(3) True nt have "skipSentence xs (k + 1) = Inr k'"
        by (subst (asm) skipSentence.simps) auto
      then show ?thesis using "1.IH" [OF True nt] False True "1.prems"(1) by simp
    qed
  qed
qed

lemma operations_in_bounds:
  assumes "0 \<le> i d" and "i d \<le> int (length (str d))" and "\<forall>w \<in> set (str d). w \<noteq> []"
  shows "(\<exists>d' b. NextWord P d = Inr (d', b) \<and> str d' = str d \<and> 0 \<le> i d' \<and> i d' \<le> int (length (str d)))"
    and "(\<exists>d' b. NextNumeral P d = Inr (d', b) \<and> str d' = str d \<and> 0 \<le> i d' \<and> i d' \<le> int (length (str d)))"
    and "(\<exists>d' b. NextSentence d = Inr (d', b) \<and> str d' = str d \<and> 0 \<le> i d' \<and> i d' \<le> int (length (str d)))"
    and "(\<exists>d'. StartOfSentence d = Inr d' \<and> str d' = str d \<and> 0 \<le> i d' \<and> i d' \<le> int (length (str d)))"
    and "(\<exists>d' s. DumpSentence d = Inr (d', s) \<and> str d' = str d \<and> 0 \<le> i d' \<and> i d' \<le> int (length (str d)))"
    and "(\<exists>ss. DumpNSentences d n = Inr (d, ss))"
    and "(\<exists>d' b. JumpNextNumeral P d = Inr (d', b) \<and> str d' = str d \<and> 0 \<le> i d' \<and> i d' \<le> int (length (str d)))"
    and "(\<exists>w. Word d = Inr w)"
    and "(\<exists>v. Numeral P d = Inr v)"
proof -
  have nt: "i d < int (length (str d))
            \<Longrightarrow> noTrailingSpace (str d) (i d) = Inr (last (str d ! nat (i d)) \<noteq> CHR '' '')"
    using noTrailingSpace_in_range [OF assms(1) _ assms(3)] by simp
  show "\<exists>d' b. NextWord P d = Inr (d', b) \<and> str d' = str d \<and> 0 \<le> i d' \<and> i d' \<le> int (length (str d))"
    using assms(1,2) nt by (auto simp: NextWord_def index_def split: option.splits)
  show "\<exists>d' b. NextNumeral P d = Inr (d', b) \<and> str d' = str d \<and> 0 \<le> i d' \<and> i d' \<le> int (length (str d))"
    using assms(1,2) nt by (auto simp: NextNumeral_def index_def split: option.splits)
  show "\<exists>d' b. NextSentence d = Inr (d', b) \<and> str d' = str d \<and> 0 \<le> i d' \<and> i d' \<le> int (length (str d))"
  proof -
    obtain k' where k': "skipSentence (str d) (i d) = Inr k'" "i d \<le> k'"
      using skipSentence_total [OF assms(1,3)] by blast
    then have "k' \<le> int (length (str d))"
      using skipSentence_bound [OF assms(1,2)] by simp
    with k' show ?thesis using assms(1,2) by (auto simp: NextSentence_def)
  qed
  show "\<exists>d'. StartOfSentence d = Inr d' \<and> str d' = str d \<and> 0 \<le> i d' \<and> i d' \<le> int (length (str d))"
    using StartOfSentence_total [OF assms] .
  show "\<exists>d' s. DumpSentence d = Inr (d', s) \<and> str d' = str d \<and> 0 \<le> i d' \<and> i d' \<le> int (length (str d))"
  proof (cases "continueNextSentence d")
    case False
    then show ?thesis using assms(1,2) by (simp add: DumpSentence_def)
  next
    case True
    have "length (sentenceOf ws) \<le> length ws" for ws
      by (induction ws) auto
    from this [of "drop (nat (i d)) (str d)"]
    have "i d + int (length (sentenceOf (drop (nat (i d)) (str d)))) \<le> int (length (str d))"
      using assms(1,2) by simp
    then show ?thesis
      using True assms(1) dumpLoop_sentenceOf [OF assms(1,3), of "[]"]
      by (simp add: DumpSentence_def)
  qed
  show "\<exists>ss. DumpNSentences d n = Inr (d, ss)"
  proof -
    obtain d1 s where ds: "DumpSentence d = Inr (d1, s)" "str d1 = str d" "0 \<le> i d1"
      using DumpSentence_total [OF assms(1,3)] by blast
    obtain d2 ss where dm: "dumpMore (nat (n - 1)) d1 [s] = Inr (d2, ss)" "str d2 = str d1"
      using dumpMore_total [of d1 "nat (n - 1)" "[s]"] ds assms(3) by auto
    have "d2\<lparr>i := i d, continueNextSentence := continueNextSentence d\<rparr> = d"
      using dm(2) ds(2) by (cases d, cases d2) simp
    then show ?thesis using ds dm by (simp add: DumpNSentences_def)
  qed
  show "\<exists>d' b. JumpNextNumeral P d = Inr (d', b) \<and> str d' = str d \<and> 0 \<le> i d' \<and> i d' \<le> int (length (str d))"
  proof -
    obtain d' b where j: "JumpNextNumeral P d = Inr (d', b)" "str d' = str d"
      "if b then i d < i d' \<and> i d' \<le> int (length (str d)) \<and> continueNextSentence d'
                      \<and> getNumeral P (str d ! nat (i d' - 1)) \<noteq> None
                      \<and> (\<forall>j. i d \<le> j \<and> j < i d' - 1 \<longrightarrow> getNumeral P (str d ! nat j) = None)
       else i d' = i d"
      using JumpNextNumeral_char [OF assms(1,3), of P] by blast
    then have "0 \<le> i d' \<and> i d' \<le> int (length (str d))"
      using assms(1,2) by (cases b) auto
    with j show ?thesis by blast
  qed
  show "\<exists>w. Word d = Inr w"
    using assms(1,2) by (auto simp: Word_def index_def)
  show "\<exists>v. Numeral P d = Inr v"
    using assms(1,2) by (auto simp: Numeral_def index_def split: option.splits)
qed

section \<open>Helper facts about the extractor\<close>

lemma splitSpace_nonempty: "splitSpace s \<noteq> []"
  by (induction s) (auto split: list.splits)

lemma NewDispenserFromSentence_open:
  "NextSentence (NewDispenserFromSentence s)
     = Inr ((NewDispenserFromSentence s)\<lparr>continueNextSentence := True\<rparr>, True)"
  using splitSpace_nonempty [of s]
  by (simp add: NextSentence_def NewDispenserFromSentence_def Let_def)

lemma bindPending_cases:
  assumes "bindPending P sentence st q = Inr (st', q')"
  shows "(st' = st \<and> q' = q)
         \<or> (q \<noteq> [] \<and> q' = tl q
             \<and> (\<exists>k. int k + 1 < 5 \<and> k < length (str (NewDispenserFromSentence sentence))
                     \<and> getNumeral P (str (NewDispenserFromSentence sentence) ! k) \<noteq> None
                     \<and> (\<forall>j < k. getNumeral P (str (NewDispenserFromSentence sentence) ! j) = None)
                     \<and> bindField P (hd q)
                          \<lparr>i = int k + 1, continueNextSentence = True,
                             str = str (NewDispenserFromSentence sentence)\<rparr> st = Inr st'))"
proof (cases "q = []")
  case True
  with assms show ?thesis by (simp add: bindPending_def)
next
  case False
  let ?numD = "(NewDispenserFromSentence sentence)\<lparr>continueNextSentence := True\<rparr>"
  let ?ws = "str (NewDispenserFromSentence sentence)"
  have i0: "i ?numD = 0" by (simp add: NewDispenserFromSentence_def Let_def)
  obtain numD' found where j: "JumpNextNumeral P ?numD = Inr (numD', found)"
    using assms False NewDispenserFromSentence_open [of sentence]
    by (auto simp: bindPending_def split: sum.splits)
  have s: "str numD' = ?ws
         \<and> (if found then 0 < i numD' \<and> i numD' \<le> int (length ?ws)
                    \<and> getNumeral P (?ws ! nat (i numD' - 1)) \<noteq> None
                    \<and> (\<forall>j. 0 \<le> j \<and> j < i numD' - 1 \<longrightarrow> getNumeral P (?ws ! nat j) = None)
             else i numD' = 0)"
    using JumpNextNumeral_sound [OF j] i0 by (cases found) simp_all
  show ?thesis
  proof (cases "found \<and> Position numD' < 5")
    case no: False
    then have "st' = st \<and> q' = q"
      using assms False j NewDispenserFromSentence_open [of sentence]
      by (auto simp: bindPending_def)
    then show ?thesis by simp
  next
    case yes: True
    then have b: "bindField P (hd q) numD' st = Inr st'" and q': "q' = tl q"
      using assms False j NewDispenserFromSentence_open [of sentence]
      by (auto simp: bindPending_def split: sum.splits)
    define k where "k = nat (i numD' - 1)"
    from yes s have pos: "0 < i numD'" "i numD' < 5" "i numD' \<le> int (length ?ws)"
      by (auto simp: Position_def)
    have c: "continueNextSentence numD'"
      using j yes
      by (auto simp: JumpNextNumeral_def split: sum.splits if_splits)
    have nd: "numD' = \<lparr>i = int k + 1, continueNextSentence = True, str = ?ws\<rparr>"
      using s pos c by (cases numD') (simp add: k_def)
    have "\<forall>j < k. getNumeral P (?ws ! j) = None"
    proof (intro allI impI)
      fix j assume "j < k"
      then have "0 \<le> int j \<and> int j < i numD' - 1" by (simp add: k_def)
      with s yes have "getNumeral P (?ws ! nat (int j)) = None" by metis
      then show "getNumeral P (?ws ! j) = None" by simp
    qed
    moreover have "int k + 1 < 5" "k < length ?ws" "getNumeral P (?ws ! k) \<noteq> None"
      using pos s yes by (auto simp: k_def)
    ultimately show ?thesis
      using False q' b nd by auto
  qed
qed


lemma bindPending_position_bound:
  assumes "bindPending P sentence st q = Inr (st', q')" and "q' \<noteq> q"
  shows "\<exists>k. k < 4 \<and> k < length (str (NewDispenserFromSentence sentence))
             \<and> getNumeral P (str (NewDispenserFromSentence sentence) ! k) \<noteq> None"
  using bindPending_cases [OF assms(1)] assms(2) by auto

lemma bindPending_fifth_word_not_bound:
  "bindPending parseDecimal ''Total amount payable is 36.00'' zeroStatement [headerFranked]
     = Inr (zeroStatement, [headerFranked])"
  by code_simp

lemma bindPending_fourth_word_bound:
  "bindPending parseDecimal ''Amount payable is 36.00'' zeroStatement [headerFranked]
     = Inr (zeroStatement\<lparr>FrankedAmount := \<lparr>Cents = 3600, HasValue = True\<rparr>\<rparr>, [])"
  by code_simp

lemma matchTexts_unpopulated: "matchTexts s st h ts \<Longrightarrow> \<not> populated h st"
  by (induction ts) (auto split: if_splits)

lemma numeralHeaderLoop_unpopulated:
  "numeralHeaderLoop s st hs = Some h \<Longrightarrow> \<not> populated h st"
  by (induction hs) (auto split: if_splits dest: matchTexts_unpopulated)

lemma populated_holders: "populated h (st\<lparr>AccountHolders := xs\<rparr>) = populated h st"
  by (cases h) simp_all

lemma bindPending_length:
  "bindPending P sentence st q = Inr (st', q') \<Longrightarrow> length q' \<le> length q"
  using bindPending_cases [of P sentence st q st' q'] by auto



section \<open>Helper facts about the interpreter\<close>

lemma update_last_snoc:
  "ys \<noteq> [] \<Longrightarrow> ys[length ys - 1 := ys ! (length ys - 1) @ s] = butlast ys @ [last ys @ s]"
  by (cases ys rule: rev_cases) (simp_all add: nth_append)

lemma writeElem_showString:
  "a \<noteq> [] \<Longrightarrow> writeElem decode a ys
     = Inr (if isStringElem a then showString ys (decode a) else ys)"
  using update_last_snoc [of ys "'' ''"]
  by (cases a) (auto simp: writeElem_def isStringElem_def showString_def Let_def)

lemma writeLoop_shownText:
  "[] \<notin> set tx \<Longrightarrow> writeLoop decode tx ys = Inr (shownText decode tx ys)"
proof (induction tx arbitrary: ys)
  case Nil
  show ?case by (simp add: shownText_def)
next
  case (Cons a tx)
  then have "a \<noteq> []" and "[] \<notin> set tx" by auto
  then show ?case
    using Cons.IH writeElem_showString [of a decode ys]
    by (simp add: shownText_def)
qed

lemma write'_shownText:
  "[] \<notin> set (FA a) \<Longrightarrow> write' FA dec t a
     = Inr (t\<lparr>text' := shownText (dec (font t)) (FA a) (text' t)\<rparr>)"
  by (simp add: write'_def writeLoop_shownText)

text \<open>\<open>t.drop(num)[num-1]\<close> is the operand on top of the stack.\<close>

lemma drop'_top:
  assumes "0 < num" and "num \<le> length (stack t)"
  shows "\<exists>ops. drop' t num = Inr (t\<lparr>stack := take (length (stack t) - num) (stack t)\<rparr>, ops)
               \<and> ops ! (num - 1) = last (stack t)"
proof -
  have "stack t \<noteq> []" using assms by auto
  moreover have "drop (length (stack t) - num) (stack t) ! (num - 1) = stack t ! (length (stack t) - 1)"
    using assms by simp
  ultimately show ?thesis
    using assms by (simp add: drop'_def last_conv_nth)
qed

section \<open>Advance to next word\<close>

text \<open>
  C8. NextWord returns false and leaves the dispenser as it was when the cursor is at or
  past the end of the fragments, when no sentence is open, and when the fragment under the
  cursor parses as a numeral. A call on an open sentence whose current fragment is a
  non-empty non-numeral succeeds; every successful call moves the cursor forward by one,
  keeps the fragments, and closes the sentence exactly when the consumed fragment has no
  trailing space or was the last fragment of the sequence.
\<close>

theorem NextWord_spec:
  "(int (length (str d)) \<le> i d \<or> \<not> continueNextSentence d \<longrightarrow> NextWord P d = Inr (d, False))
   \<and> (0 \<le> i d \<and> i d < int (length (str d)) \<and> getNumeral P (str d ! nat (i d)) \<noteq> None
        \<longrightarrow> NextWord P d = Inr (d, False))
   \<and> (0 \<le> i d \<and> i d < int (length (str d)) \<and> continueNextSentence d
        \<and> getNumeral P (str d ! nat (i d)) = None \<and> str d ! nat (i d) \<noteq> []
        \<longrightarrow> (\<exists>d'. NextWord P d = Inr (d', True)))
   \<and> (\<forall>d'. NextWord P d = Inr (d', True)
        \<longrightarrow> i d' = i d + 1 \<and> str d' = str d
            \<and> (\<not> continueNextSentence d'
                 \<longleftrightarrow> last (str d ! nat (i d)) \<noteq> CHR '' '' \<or> i d + 1 = int (length (str d))))"
  by (auto simp: NextWord_def index_def noTrailingSpace_def lastByte_def
           split: if_splits sum.splits option.splits)

theorem NextWord_spec_witness:
  "NextWord parseDecimal \<lparr>i = 2, continueNextSentence = True, str = [''Total '', ''36.00'']\<rparr>
     = Inr (\<lparr>i = 2, continueNextSentence = True, str = [''Total '', ''36.00'']\<rparr>, False)
   \<and> NextWord parseDecimal \<lparr>i = 1, continueNextSentence = True, str = [''Total '', ''36.00'']\<rparr>
     = Inr (\<lparr>i = 1, continueNextSentence = True, str = [''Total '', ''36.00'']\<rparr>, False)
   \<and> NextWord parseDecimal \<lparr>i = 0, continueNextSentence = True, str = [''Total '', ''36.00'']\<rparr>
     = Inr (\<lparr>i = 1, continueNextSentence = True, str = [''Total '', ''36.00'']\<rparr>, True)
   \<and> NextWord parseDecimal \<lparr>i = 0, continueNextSentence = True, str = [''Total'', ''36.00'']\<rparr>
     = Inr (\<lparr>i = 1, continueNextSentence = False, str = [''Total'', ''36.00'']\<rparr>, True)"
proof -
  let ?xs = "[''Total '', ''36.00'']"
  have n1: "getNumeral parseDecimal ''36.00'' \<noteq> None" by code_simp
  have n0: "getNumeral parseDecimal ''Total '' = None" by code_simp
  have a: "NextWord parseDecimal \<lparr>i = 2, continueNextSentence = True, str = ?xs\<rparr>
     = Inr (\<lparr>i = 2, continueNextSentence = True, str = ?xs\<rparr>, False)"
    using NextWord_spec [of "\<lparr>i = 2, continueNextSentence = True, str = ?xs\<rparr>" parseDecimal]
    by simp
  have b: "NextWord parseDecimal \<lparr>i = 1, continueNextSentence = True, str = ?xs\<rparr>
     = Inr (\<lparr>i = 1, continueNextSentence = True, str = ?xs\<rparr>, False)"
    using NextWord_spec [of "\<lparr>i = 1, continueNextSentence = True, str = ?xs\<rparr>" parseDecimal] n1
    by simp
  obtain d' where c: "NextWord parseDecimal \<lparr>i = 0, continueNextSentence = True, str = ?xs\<rparr> = Inr (d', True)"
    using NextWord_spec [of "\<lparr>i = 0, continueNextSentence = True, str = ?xs\<rparr>" parseDecimal] n0
    by auto
  then have "i d' = 1 \<and> str d' = ?xs \<and> continueNextSentence d'"
    using NextWord_spec [of "\<lparr>i = 0, continueNextSentence = True, str = ?xs\<rparr>" parseDecimal]
    by auto
  then have c': "d' = \<lparr>i = 1, continueNextSentence = True, str = ?xs\<rparr>"
    by (cases d') simp
  show ?thesis using a b c c' apply simp by code_simp
qed

section \<open>Jump to next numeral\<close>

text \<open>
  C3, as the code has it. For a dispenser whose cursor is not negative and whose fragments
  are all non-empty, JumpNextNumeral returns. When it returns true the cursor has moved
  forward, stands one past a fragment that parses as a numeral, and Numeral yields that
  fragment's parsed value; when it returns false the cursor is at its position before
  the call. The fragments are never changed.
\<close>

theorem JumpNextNumeral_found_or_restored:
  assumes "0 \<le> i d" and "\<forall>w \<in> set (str d). w \<noteq> []"
  shows "\<exists>d' b. JumpNextNumeral P d = Inr (d', b) \<and> str d' = str d
           \<and> (b \<longrightarrow> i d < i d' \<and> i d' \<le> int (length (str d))
                    \<and> (\<exists>v. getNumeral P (str d ! nat (i d' - 1)) = Some v
                             \<and> Numeral P d' = Inr v))
           \<and> (\<not> b \<longrightarrow> i d' = i d)"
proof -
  obtain d' b where r: "JumpNextNumeral P d = Inr (d', b)" "str d' = str d"
    and c: "if b then i d < i d' \<and> i d' \<le> int (length (str d)) \<and> continueNextSentence d'
                      \<and> getNumeral P (str d ! nat (i d' - 1)) \<noteq> None
                      \<and> (\<forall>j. i d \<le> j \<and> j < i d' - 1 \<longrightarrow> getNumeral P (str d ! nat j) = None)
            else i d' = i d"
    using JumpNextNumeral_char [OF assms, of P] by blast
  have "\<exists>v. getNumeral P (str d ! nat (i d' - 1)) = Some v \<and> Numeral P d' = Inr v" if b
  proof -
    from that c obtain v where v: "getNumeral P (str d ! nat (i d' - 1)) = Some v"
      and rng: "i d < i d'" "i d' \<le> int (length (str d))"
      by auto
    then have "Numeral P d' = Inr v"
      using assms(1) r(2) by (simp add: Numeral_def index_def)
    with v show ?thesis by simp
  qed
  with r c show ?thesis by (cases b) auto
qed

text \<open>
  C3 as stated quantifies over every dispenser state, and there the call can panic
  instead of returning: the dispenser that the extractor builds with
  NewDispenserFromSentence for the sentence "foo " (trailing space) ends in an empty
  fragment, and once its sentence is opened JumpNextNumeral reaches that fragment through
  NextWord, whose last-byte test indexes the empty string.
\<close>

theorem JumpNextNumeral_panics_on_empty_fragment:
  "NextSentence (NewDispenserFromSentence ''foo '')
     = Inr (\<lparr>i = 0, continueNextSentence = True, str = [''foo '', '''']\<rparr>, True)
   \<and> JumpNextNumeral parseDecimal \<lparr>i = 0, continueNextSentence = True, str = [''foo '', '''']\<rparr>
     = Inl IndexOutOfRange"
  by code_simp

theorem JumpNextNumeral_found_or_restored_witness:
  "0 \<le> i \<lparr>i = 0, continueNextSentence = True, str = [''Total '', ''$36.00'']\<rparr>
   \<and> [] \<notin> set (str \<lparr>i = 0, continueNextSentence = True, str = [''Total '', ''$36.00'']\<rparr>)
   \<and> (\<exists>d'. JumpNextNumeral parseDecimal \<lparr>i = 0, continueNextSentence = True, str = [''Total '', ''$36.00'']\<rparr> = Inr (d', True) \<and> Numeral parseDecimal d' = Inr 36)"
proof -
  let ?d = "\<lparr>i = 0, continueNextSentence = True, str = [''Total '', ''$36.00'']\<rparr>"
  have j: "JumpNextNumeral parseDecimal ?d = Inr (\<lparr>i = 2, continueNextSentence = True, str = [''Total '', ''$36.00'']\<rparr>, True)"
    by code_simp
  have g: "getNumeral parseDecimal ''$36.00'' = Some 36"
    by code_simp
  have "\<exists>d' b. JumpNextNumeral parseDecimal ?d = Inr (d', b) \<and> str d' = str ?d
           \<and> (b \<longrightarrow> i ?d < i d' \<and> i d' \<le> int (length (str ?d))
                    \<and> (\<exists>v. getNumeral parseDecimal (str ?d ! nat (i d' - 1)) = Some v
                             \<and> Numeral parseDecimal d' = Inr v))
           \<and> (\<not> b \<longrightarrow> i d' = i ?d)"
    by (rule JumpNextNumeral_found_or_restored) simp_all
  then show ?thesis
    using j g by auto
qed

section \<open>Consume the current sentence\<close>

text \<open>
  C6. Fragments respect the space-suffix convention when each of them is a non-empty
  string, so that it ends either in a space or in another byte. With no sentence open,
  DumpSentence returns the empty string and changes nothing. With a sentence open and the
  cursor at a position of the sequence (not negative), it returns the concatenation of
  the fragments from the cursor through the last fragment of the sentence, moves the
  cursor past them, and closes the sentence.
\<close>

theorem DumpSentence_concat:
  "(\<not> continueNextSentence d \<longrightarrow> DumpSentence d = Inr (d, []))
   \<and> (continueNextSentence d \<and> 0 \<le> i d \<and> (\<forall>w \<in> set (str d). w \<noteq> [])
        \<longrightarrow> DumpSentence d
              = Inr (d\<lparr>i := i d + int (length (sentenceOf (drop (nat (i d)) (str d)))),
                       continueNextSentence := False\<rparr>,
                     concat (sentenceOf (drop (nat (i d)) (str d)))))"
  by (simp add: DumpSentence_def dumpLoop_sentenceOf)

theorem DumpSentence_concat_witness:
  "DumpSentence \<lparr>i = 1, continueNextSentence = False, str = [''ABN 123'', ''Franked '', ''Amount'', ''36.00'']\<rparr>
     = Inr (\<lparr>i = 1, continueNextSentence = False, str = [''ABN 123'', ''Franked '', ''Amount'', ''36.00'']\<rparr>, [])
   \<and> DumpSentence \<lparr>i = 1, continueNextSentence = True, str = [''ABN 123'', ''Franked '', ''Amount'', ''36.00'']\<rparr>
     = Inr (\<lparr>i = 3, continueNextSentence = False, str = [''ABN 123'', ''Franked '', ''Amount'', ''36.00'']\<rparr>,
            ''Franked Amount'')"
  using DumpSentence_concat [of "\<lparr>i = 1, continueNextSentence = False, str = [''ABN 123'', ''Franked '', ''Amount'', ''36.00'']\<rparr>"]
        DumpSentence_concat [of "\<lparr>i = 1, continueNextSentence = True, str = [''ABN 123'', ''Franked '', ''Amount'', ''36.00'']\<rparr>"]
  by simp


section \<open>Peek the next N sentences\<close>

text \<open>
  C5, as the code has it. For a dispenser whose cursor is not negative and whose fragments
  are all non-empty, DumpNSentences returns for every N, and the dispenser it leaves is
  equal to the one it was called on: cursor, open/closed flag and fragments. A second
  call therefore starts from the same state and returns the same list.
\<close>

theorem DumpNSentences_restores:
  assumes "0 \<le> i d" and "\<forall>w \<in> set (str d). w \<noteq> []"
  shows "\<exists>sentences. DumpNSentences d n = Inr (d, sentences)"
proof -
  obtain d1 s where ds: "DumpSentence d = Inr (d1, s)" "str d1 = str d" "0 \<le> i d1"
    using DumpSentence_total [OF assms] by blast
  obtain d2 ss where dm: "dumpMore (nat (n - 1)) d1 [s] = Inr (d2, ss)" "str d2 = str d1"
    using dumpMore_total [of d1 "nat (n - 1)" "[s]"] ds assms by auto
  have "d2\<lparr>i := i d, continueNextSentence := continueNextSentence d\<rparr> = d"
    using dm(2) ds(2) by (cases d, cases d2) simp
  then show ?thesis
    using ds dm by (simp add: DumpNSentences_def)
qed

text \<open>
  C5 as stated quantifies over every dispenser state. On an empty fragment the peek
  panics in the last-byte test of DumpSentence, after the cursor has already been moved,
  and never reaches the two assignments that restore the state.
\<close>

theorem DumpNSentences_panics_on_empty_fragment:
  "DumpNSentences \<lparr>i = 0, continueNextSentence = True, str = [''a'', '''']\<rparr> 2 = Inl IndexOutOfRange"
  by code_simp

theorem DumpNSentences_restores_witness:
  "0 \<le> i \<lparr>i = 1, continueNextSentence = True, str = [''a'', ''b '', ''c'', ''d'']\<rparr>
   \<and> [] \<notin> set (str \<lparr>i = 1, continueNextSentence = True, str = [''a'', ''b '', ''c'', ''d'']\<rparr>)
   \<and> DumpNSentences \<lparr>i = 1, continueNextSentence = True, str = [''a'', ''b '', ''c'', ''d'']\<rparr> 5
       = Inr (\<lparr>i = 1, continueNextSentence = True, str = [''a'', ''b '', ''c'', ''d'']\<rparr>, [''b c'', ''d''])"
proof -
  let ?d = "\<lparr>i = 1, continueNextSentence = True, str = [''a'', ''b '', ''c'', ''d'']\<rparr>"
  have e: "DumpNSentences ?d 5 = Inr (?d, [''b c'', ''d''])"
    by code_simp
  have "\<exists>sentences. DumpNSentences ?d 5 = Inr (?d, sentences)"
    by (rule DumpNSentences_restores) simp_all
  with e show ?thesis by simp
qed


section \<open>The last N words\<close>

text \<open>
  For N of at least 1 and a cursor that is not past the end of the fragments, the guard
  of LastNWords puts position \<open>i - 2\<close> in range, and the result is the fragment at
  \<open>i - 2\<close> whatever N is.
\<close>

lemma LastNWords_two_back:
  assumes "1 \<le> n" and "i d \<le> int (length (str d))"
    and "0 \<le> i d - n - 1" and "i d - n - 1 < int (length (str d))"
  shows "LastNWords d n = Inr (str d ! nat (i d - 2))"
  using assms by (simp add: LastNWords_def index_def)

lemma LastNWords_two_back_example:
  "LastNWords \<lparr>i = 3, continueNextSentence = True, str = [''a '', ''b '', ''c '', ''d'']\<rparr> 1 = Inr ''b ''
   \<and> LastNWords \<lparr>i = 3, continueNextSentence = True, str = [''a '', ''b '', ''c '', ''d'']\<rparr> 2 = Inr ''b ''"
  by (simp add: LastNWords_def index_def)

text \<open>
  C9. The guard of LastNWords tests position \<open>i - N - 1\<close>, the read is at position
  \<open>i - 2\<close>. With the cursor at 1 over the single fragment "a" and N = 0 the guard passes,
  there is no fragment two positions behind the cursor, and the read at position -1 is a
  panic. LastWord, which guards the position \<open>i - 2\<close> that it reads, returns the empty
  string in the same state.
\<close>

theorem LastNWords_guard_passes_and_panics:
  "0 \<le> i \<lparr>i = 1, continueNextSentence = True, str = [''a'']\<rparr> - 0 - 1
   \<and> i \<lparr>i = 1, continueNextSentence = True, str = [''a'']\<rparr> - 0 - 1
       < int (length (str \<lparr>i = 1, continueNextSentence = True, str = [''a'']\<rparr>))
   \<and> LastNWords \<lparr>i = 1, continueNextSentence = True, str = [''a'']\<rparr> 0 = Inl IndexOutOfRange
   \<and> LastWord \<lparr>i = 1, continueNextSentence = True, str = [''a'']\<rparr> = Inr []"
  by (simp add: LastNWords_def LastWord_def index_def)

section \<open>Indexing in bounds\<close>

text \<open>
  C10. Every operation of the list but one keeps its indexing in bounds on non-empty
  fragments (\<open>operations_in_bounds\<close>). LastSentence does not. A dispenser over the two
  non-empty fragments "a " and "b": open the first sentence, advance one word, and call
  LastSentence. StartOfSentence moves the cursor to 2, the number of fragments, and
  LastSentence then reads the fragment at the cursor: a panic.
\<close>

theorem LastSentence_panics_on_nonempty_fragments:
  "NextSentence (NewDispenser [''a '', ''b''])
     = Inr (\<lparr>i = 0, continueNextSentence = True, str = [''a '', ''b'']\<rparr>, True)
   \<and> NextWord parseDecimal \<lparr>i = 0, continueNextSentence = True, str = [''a '', ''b'']\<rparr>
     = Inr (\<lparr>i = 1, continueNextSentence = True, str = [''a '', ''b'']\<rparr>, True)
   \<and> LastSentence \<lparr>i = 1, continueNextSentence = True, str = [''a '', ''b'']\<rparr>
     = Inl IndexOutOfRange"
  by code_simp


text \<open>
  LastSentence on a fresh dispenser over the single fragment "a" returns with the cursor
  at -1, and Word then reads position -2.
\<close>

theorem LastSentence_leaves_negative_cursor:
  "LastSentence (NewDispenser [''a'']) = Inr \<lparr>i = - 1, continueNextSentence = True, str = [''a'']\<rparr>
   \<and> Word \<lparr>i = - 1, continueNextSentence = True, str = [''a'']\<rparr> = Inl IndexOutOfRange"
  by code_simp

section \<open>A single space after a text-showing operator\<close>

text \<open>
  C7, as the code has it. When the interpreter processes a text-showing operator (Tj, the
  single quote and TJ with one operand on the stack, the double quote with three) and no
  element of the array of the operand on top of the stack is empty, it removes the
  operands from the stack and shows the elements that start with an opening parenthesis
  or angle bracket, decoded with the map of the selected font, one after the other: a
  decoded string equal to a single space is merged into the last fragment as its trailing
  space when the fragment list is not empty; every other decoded string, and a single
  space decoded while the fragment list is still empty, is appended as a new fragment.
\<close>

theorem text_showing_operators:
  assumes "[] \<notin> set (FA (last (stack t)))"
  shows "(token \<in> {[CHR 0x27], ''TJ'', ''Tj''} \<and> 1 \<le> length (stack t)
            \<longrightarrow> processToken FA dec t token
                  = Inr (t\<lparr>stack := take (length (stack t) - 1) (stack t),
                           text' := shownText (dec (font t)) (FA (last (stack t))) (text' t)\<rparr>))
       \<and> (token = [CHR 0x22] \<and> 3 \<le> length (stack t)
            \<longrightarrow> processToken FA dec t token
                  = Inr (t\<lparr>stack := take (length (stack t) - 3) (stack t),
                           text' := shownText (dec (font t)) (FA (last (stack t))) (text' t)\<rparr>))"
proof (intro conjI impI)
  assume a: "token \<in> {[CHR 0x27], ''TJ'', ''Tj''} \<and> 1 \<le> length (stack t)"
  then obtain ops where d: "drop' t 1 = Inr (t\<lparr>stack := take (length (stack t) - 1) (stack t)\<rparr>, ops)"
      "ops ! 0 = last (stack t)"
    using drop'_top [of 1 t] by auto
  from a consider "token = [CHR 0x27]" | "token = ''TJ''" | "token = ''Tj''" by blast
  then have "processToken FA dec t token
      = (case drop' t 1 of Inl e \<Rightarrow> Inl e | Inr (t', ops) \<Rightarrow> write' FA dec t' (ops ! 0))"
    by cases (simp_all add: processToken_def)
  then show "processToken FA dec t token
                  = Inr (t\<lparr>stack := take (length (stack t) - 1) (stack t),
                           text' := shownText (dec (font t)) (FA (last (stack t))) (text' t)\<rparr>)"
    using d assms by (simp add: write'_shownText)
next
  assume a: "token = [CHR 0x22] \<and> 3 \<le> length (stack t)"
  then obtain ops where d: "drop' t 3 = Inr (t\<lparr>stack := take (length (stack t) - 3) (stack t)\<rparr>, ops)"
      "ops ! 2 = last (stack t)"
    using drop'_top [of 3 t] by auto
  from a have "processToken FA dec t token
      = (case drop' t 3 of Inl e \<Rightarrow> Inl e | Inr (t', ops) \<Rightarrow> write' FA dec t' (ops ! 2))"
    by (simp add: processToken_def)
  then show "processToken FA dec t token
                  = Inr (t\<lparr>stack := take (length (stack t) - 3) (stack t),
                           text' := shownText (dec (font t)) (FA (last (stack t))) (text' t)\<rparr>)"
    using d assms by (simp add: write'_shownText)
qed

text \<open>
  C7 as stated merges every decoded single space. The test in \<open>write\<close> is
  \<open>str == " " && len(t.text) > 0\<close>: a single space shown before any other text has no
  previous fragment and is appended as a fragment of its own. The stream is the literal
  \<open>( )\<close> followed by \<open>Tj\<close>; the array is the operand itself and decoding strips the
  parentheses of the literal.
\<close>

theorem space_shown_first_is_appended:
  "process (\<lambda>a. [a]) (\<lambda>f a. butlast (tl a)) \<lparr>text' = [], font = ''/F1'', stack = []\<rparr>
     [''( )'', ''Tj'']
     = Inr \<lparr>text' = ['' ''], font = ''/F1'', stack = []\<rparr>"
  by code_simp

theorem text_showing_operators_witness:
  "processToken (\<lambda>a. [a]) (\<lambda>f a. butlast (tl a))
     \<lparr>text' = [''Franked'', ''Amount:''], font = ''/F1'', stack = [''( )'']\<rparr> ''Tj''
     = Inr \<lparr>text' = [''Franked'', ''Amount: ''], font = ''/F1'', stack = []\<rparr>
   \<and> processToken (\<lambda>a. [''(Franked)'', ''( )'', ''-120'', ''(Amount:)'']) (\<lambda>f a. butlast (tl a))
     \<lparr>text' = [], font = ''/F1'', stack = [''[(Franked)( )-120(Amount:)]'']\<rparr> ''TJ''
     = Inr \<lparr>text' = [''Franked '', ''Amount:''], font = ''/F1'', stack = []\<rparr>
   \<and> processToken (\<lambda>a. [a]) (\<lambda>f a. butlast (tl a))
     \<lparr>text' = [''Franked'', ''Amount: ''], font = ''/F1'', stack = [''0'', ''0'', ''(36.00)'']\<rparr> [CHR 0x22]
     = Inr \<lparr>text' = [''Franked'', ''Amount: '', ''36.00''], font = ''/F1'', stack = []\<rparr>
   \<and> processToken (\<lambda>a. [a]) (\<lambda>f a. butlast (tl a))
     \<lparr>text' = [], font = ''/F1'', stack = [''( )'']\<rparr> [CHR 0x27]
     = Inr \<lparr>text' = ['' ''], font = ''/F1'', stack = []\<rparr>"
  using text_showing_operators [where FA = "\<lambda>a. [a]" and dec = "\<lambda>f a. butlast (tl a)"
          and t = "\<lparr>text' = [''Franked'', ''Amount:''], font = ''/F1'', stack = [''( )'']\<rparr>"
          and token = "''Tj''"]
        text_showing_operators [where FA = "\<lambda>a. [''(Franked)'', ''( )'', ''-120'', ''(Amount:)'']"
          and dec = "\<lambda>f a. butlast (tl a)"
          and t = "\<lparr>text' = [], font = ''/F1'', stack = [''[(Franked)( )-120(Amount:)]'']\<rparr>"
          and token = "''TJ''"]
        text_showing_operators [where FA = "\<lambda>a. [a]" and dec = "\<lambda>f a. butlast (tl a)"
          and t = "\<lparr>text' = [''Franked'', ''Amount: ''], font = ''/F1'', stack = [''0'', ''0'', ''(36.00)'']\<rparr>"
          and token = "[CHR 0x22]"]
        text_showing_operators [where FA = "\<lambda>a. [a]" and dec = "\<lambda>f a. butlast (tl a)"
          and t = "\<lparr>text' = [], font = ''/F1'', stack = [''( )'']\<rparr>"
          and token = "[CHR 0x27]"]
  by (simp add: shownText_def showString_def isStringElem_def)

section \<open>Currency binding\<close>

text \<open>
  C1. NewDollar adds one half and converts to an integer, and the conversion truncates
  toward zero: that rounds half up only when the sum is not negative. The fragment
  "-1.00" is a numeral with value -1; all of -1 * 100, -100 + 0.5 and the conversion of
  -99.5 are exact in float64 as well, and the stored amount is -99 cents where rounding
  -100 half up gives -100.
\<close>

theorem NewDollar_negative_not_rounded:
  "getNumeral parseDecimal ''-1.00'' = Some (- 1)
   \<and> NewDollar (- 1) = \<lparr>Cents = - 99, HasValue = True\<rparr>
   \<and> \<lfloor>(- 1 :: rat) * 100 + 1 / 2\<rfloor> = - 100"
proof -
  have "getNumeral parseDecimal ''-1.00'' = Some (- 1)"
    by code_simp
  then show ?thesis
    by (simp add: NewDollar_def floatToInt_def ceiling_eq_iff floor_eq_iff)
qed

text \<open>
  In the model, where arithmetic is exact, a value that is not negative is stored as the
  value times 100, rounded half up, with the present flag set; the decimal 36.005 gives
  3601 cents and 0 gives 0 cents. The rounding of float64 itself (the product and the sum
  are rounded to the nearest double, and a decimal such as 1.005 is not a double) and the
  range of int64 are outside the model, so these two facts speak of the rule, not of
  every bit pattern.
\<close>

lemma NewDollar_nonnegative:
  "0 \<le> v \<Longrightarrow> NewDollar v = \<lparr>Cents = \<lfloor>v * 100 + 1 / 2\<rfloor>, HasValue = True\<rparr>"
  by (simp add: NewDollar_def floatToInt_def)

lemma NewDollar_examples:
  "NewDollar (36005 / 1000) = \<lparr>Cents = 3601, HasValue = True\<rparr>
   \<and> NewDollar 0 = \<lparr>Cents = 0, HasValue = True\<rparr>"
  by (simp add: NewDollar_def floatToInt_def floor_eq_iff)

section \<open>Binding within the first positions, first in first out\<close>

text \<open>
  C4. With a label pending, a run of the binding block that returns either leaves the
  statement and the queue as they were, or removes the head of the queue, the oldest
  entry (labels are enqueued at the end, see \<open>processSentence\<close>), and binds to it the
  first numeral of the sentence, which then stands among the first 5 positions of the
  sentence. When none of the first 5 positions holds a numeral, statement and queue are
  unchanged. Positions are the fragments of \<open>NewDispenserFromSentence\<close>.
\<close>

theorem bindPending_within_five_fifo:
  assumes "bindPending P sentence st q = Inr (st', q')" and "q \<noteq> []"
  shows "((st' = st \<and> q' = q)
          \<or> (q' = tl q
              \<and> (\<exists>k. k < 5 \<and> k < length (str (NewDispenserFromSentence sentence))
                      \<and> getNumeral P (str (NewDispenserFromSentence sentence) ! k) \<noteq> None
                      \<and> (\<forall>j < k. getNumeral P (str (NewDispenserFromSentence sentence) ! j) = None)
                      \<and> bindField P (hd q)
                           \<lparr>i = int k + 1, continueNextSentence = True,
                              str = str (NewDispenserFromSentence sentence)\<rparr> st = Inr st')))
         \<and> ((\<forall>k. k < 5 \<and> k < length (str (NewDispenserFromSentence sentence))
                  \<longrightarrow> getNumeral P (str (NewDispenserFromSentence sentence) ! k) = None)
              \<longrightarrow> st' = st \<and> q' = q)"
proof -
  let ?ws = "str (NewDispenserFromSentence sentence)"
  show ?thesis
  proof (cases "st' = st \<and> q' = q")
    case True
    then show ?thesis by simp
  next
    case False
    with bindPending_cases [OF assms(1)] obtain k where k: "q' = tl q" "int k + 1 < 5"
        "k < length ?ws" "getNumeral P (?ws ! k) \<noteq> None"
        "\<forall>j < k. getNumeral P (?ws ! j) = None"
        "bindField P (hd q) \<lparr>i = int k + 1, continueNextSentence = True, str = ?ws\<rparr> st = Inr st'"
      by auto
    then have k5: "k < 5" by simp
    have one: "\<exists>k. k < 5 \<and> k < length ?ws \<and> getNumeral P (?ws ! k) \<noteq> None
                  \<and> (\<forall>j < k. getNumeral P (?ws ! j) = None)
                  \<and> bindField P (hd q)
                        \<lparr>i = int k + 1, continueNextSentence = True, str = ?ws\<rparr> st = Inr st'"
      using k k5 by (intro exI [of _ k]) simp
    have two: "\<not> (\<forall>k. k < 5 \<and> k < length ?ws \<longrightarrow> getNumeral P (?ws ! k) = None)"
      using k(3,4) k5 by (intro notI) simp
    show ?thesis
    proof (intro conjI impI)
      show "(st' = st \<and> q' = q)
            \<or> (q' = tl q
                \<and> (\<exists>k. k < 5 \<and> k < length ?ws \<and> getNumeral P (?ws ! k) \<noteq> None
                        \<and> (\<forall>j < k. getNumeral P (?ws ! j) = None)
                        \<and> bindField P (hd q)
                             \<lparr>i = int k + 1, continueNextSentence = True, str = ?ws\<rparr> st
                            = Inr st'))"
        using k(1) one by (intro disjI2 conjI)
    next
      assume "\<forall>k. k < 5 \<and> k < length ?ws \<longrightarrow> getNumeral P (?ws ! k) = None"
      with two show "st' = st" by (rule notE)
    next
      assume "\<forall>k. k < 5 \<and> k < length ?ws \<longrightarrow> getNumeral P (?ws ! k) = None"
      with two show "q' = q" by (rule notE)
    qed
  qed
qed


theorem bindPending_within_five_fifo_witness:
  "bindPending parseDecimal ''Total $36.00'' zeroStatement [headerFranked, headerUnfranked]
     = Inr (zeroStatement\<lparr>FrankedAmount := \<lparr>Cents = 3600, HasValue = True\<rparr>\<rparr>, [headerUnfranked])
   \<and> bindPending parseDecimal ''Please see the note overleaf'' zeroStatement [headerFranked, headerUnfranked]
     = Inr (zeroStatement, [headerFranked, headerUnfranked])
   \<and> (\<exists>k. k < 5 \<and> k < length (str (NewDispenserFromSentence ''Total $36.00''))
          \<and> getNumeral parseDecimal (str (NewDispenserFromSentence ''Total $36.00'') ! k) \<noteq> None)"
proof -
  have a: "bindPending parseDecimal ''Total $36.00'' zeroStatement [headerFranked, headerUnfranked]
     = Inr (zeroStatement\<lparr>FrankedAmount := \<lparr>Cents = 3600, HasValue = True\<rparr>\<rparr>, [headerUnfranked])"
    by code_simp
  have b: "bindPending parseDecimal ''Please see the note overleaf'' zeroStatement [headerFranked, headerUnfranked]
     = Inr (zeroStatement, [headerFranked, headerUnfranked])"
    by code_simp
  have "\<exists>k. k < 5 \<and> k < length (str (NewDispenserFromSentence ''Total $36.00''))
          \<and> getNumeral parseDecimal (str (NewDispenserFromSentence ''Total $36.00'') ! k) \<noteq> None"
    using bindPending_within_five_fifo [OF a] by auto
  with a b show ?thesis by simp
qed



text \<open>
  The bound of the code is one position tighter than 5: it compares the cursor after the
  numeral, \<open>numD.Position() < 5\<close> (see \<open>bindPending_position_bound\<close>), so a numeral that
  is the fifth word is not bound (\<open>bindPending_fifth_word_not_bound\<close>).
\<close>

section \<open>Enqueueing labels\<close>

text \<open>
  C2, as the code has it. Label recognition returns a field identifier only when the
  field is unpopulated in the statement at that moment: the present flag of a currency
  field is unset, an integer field is zero, and the identifier Other has no field.
  Consequently a round of the loop that makes the queue longer appends exactly one
  identifier, and its field is unpopulated in the statement after that round.
\<close>

theorem enqueue_only_unpopulated:
  "(numeralHeader order s st = Some h \<longrightarrow> \<not> populated h st)
   \<and> (processSentence P T order holders (d, st, q) = Inr (d', st', q') \<and> length q < length q'
        \<longrightarrow> (\<exists>h'. q' = q @ [h'] \<and> \<not> populated h' st'))"
proof (intro conjI impI)
  assume "numeralHeader order s st = Some h"
  then show "\<not> populated h st"
    by (simp add: numeralHeader_def numeralHeaderLoop_unpopulated)
next
  assume a: "processSentence P T order holders (d, st, q) = Inr (d', st', q') \<and> length q < length q'"
  have nh: "\<And>s st h. numeralHeader order s st = Some h \<Longrightarrow> \<not> populated h st"
    by (simp add: numeralHeader_def numeralHeaderLoop_unpopulated)
  from a show "\<exists>h'. q' = q @ [h'] \<and> \<not> populated h' st'"
    by (auto simp: processSentence_def Let_def
             split: sum.splits option.splits prod.splits if_splits
             dest!: nh bindPending_length)
qed

text \<open>
  C2 as stated says that an identifier is enqueued at most once and a field bound at most
  once. A field becomes populated only when a numeral is bound to it, so a label that
  recurs before the first binding is enqueued again, and the next two numerals are both
  bound to its field. The trace lists, after each round, the queue and the franked
  amount.
\<close>

theorem repeated_label_enqueued_and_bound_twice:
  "map (map_sum id (\<lambda>(d, st, q). (q, FrankedAmount st)))
       (processTrace 10 parseDecimal (\<lambda>s. None) sourceOrder []
          (NewDispenser [''Franked Amount'', ''Franked Amount'', ''36.00'', ''37.00'',
                         ''Thank you'', ''Goodbye''], zeroStatement, []))
     = [Inr ([headerFranked], \<lparr>Cents = 0, HasValue = False\<rparr>),
        Inr ([headerFranked, headerFranked], \<lparr>Cents = 0, HasValue = False\<rparr>),
        Inr ([headerFranked], \<lparr>Cents = 3600, HasValue = True\<rparr>),
        Inr ([], \<lparr>Cents = 3700, HasValue = True\<rparr>),
        Inr ([], \<lparr>Cents = 3700, HasValue = True\<rparr>)]
   \<and> map_option (map_sum id FrankedAmount)
        (processText 10 parseDecimal (\<lambda>s. None) sourceOrder
           [''Franked Amount'', ''Franked Amount'', ''36.00'', ''37.00'', ''Thank you'', ''Goodbye''] [])
     = Some (Inr \<lparr>Cents = 3700, HasValue = True\<rparr>)"
  by code_simp

text \<open>
  The identifier Other is never rejected: each of its labels enqueues it again.
\<close>

lemma other_label_enqueued_twice:
  "map (map_sum id (\<lambda>(d, st, q). q))
       (processTrace 10 parseDecimal (\<lambda>s. None) sourceOrder []
          (NewDispenser [''Dividend Rate'', ''Net Amount'', ''Thank you'', ''Goodbye''], zeroStatement, []))
     = [Inr [headerOther], Inr [headerOther, headerOther], Inr [headerOther, headerOther]]"
  by code_simp

theorem enqueue_only_unpopulated_witness:
  "numeralHeader sourceOrder ''Franked Amount'' zeroStatement = Some headerFranked
   \<and> \<not> populated headerFranked zeroStatement
   \<and> numeralHeader sourceOrder ''Franked Amount''
        (zeroStatement\<lparr>FrankedAmount := \<lparr>Cents = 3600, HasValue = True\<rparr>\<rparr>) = None
   \<and> processSentence parseDecimal (\<lambda>s. None) sourceOrder []
        (\<lparr>i = 0, continueNextSentence = True, str = [''Franked Amount'', ''36.00'']\<rparr>, zeroStatement, [])
       = Inr (\<lparr>i = 1, continueNextSentence = False, str = [''Franked Amount'', ''36.00'']\<rparr>,
              zeroStatement, [headerFranked])"
proof -
  have a: "numeralHeader sourceOrder ''Franked Amount'' zeroStatement = Some headerFranked"
    by code_simp
  have b: "numeralHeader sourceOrder ''Franked Amount''
        (zeroStatement\<lparr>FrankedAmount := \<lparr>Cents = 3600, HasValue = True\<rparr>\<rparr>) = None"
    by code_simp
  have c: "processSentence parseDecimal (\<lambda>s. None) sourceOrder []
        (\<lparr>i = 0, continueNextSentence = True, str = [''Franked Amount'', ''36.00'']\<rparr>, zeroStatement, [])
       = Inr (\<lparr>i = 1, continueNextSentence = False, str = [''Franked Amount'', ''36.00'']\<rparr>,
              zeroStatement, [headerFranked])"
    by code_simp
  have "\<not> populated headerFranked zeroStatement"
    using enqueue_only_unpopulated [of sourceOrder "''Franked Amount''" zeroStatement headerFranked] a
    by simp
  with a b c show ?thesis by simp
qed

end
